theory Spec2Isabelle
  imports Complex_Main "HOL-Library.Word"
begin

unbundle bit_operations_syntax

section \<open>Membalance: memory scheduler of the host daemon\<close>

text \<open>
  A shallow embedding of the parts of \<^verbatim>\<open>sched.cpp\<close>, \<^verbatim>\<open>domain.cpp\<close> and
  \<^verbatim>\<open>config_parser.cpp\<close> that decide the properties stated below.

  Conventions of the embedding.
  \<^item> C \<^verbatim>\<open>long\<close> values (memory sizes in KB, rates in KB/s) are \<open>int\<close>; none of the modelled
    arithmetic depends on 64-bit overflow. Tick counters are \<^verbatim>\<open>unsigned long\<close> and their
    differences are taken modulo \<open>2^64\<close>, so they are \<open>64 word\<close>.
  \<^item> The value of a C \<^verbatim>\<open>double\<close> (a force, a fraction, the weighted rate sum) is a
    \<open>real\<close>. Every arithmetic operation of the source on doubles, and every conversion of a
    \<^verbatim>\<open>long\<close> to \<^verbatim>\<open>double\<close>, is followed by the rounding \<open>rnd\<close> to the nearest double
    (53 significant bits, ties to even). Comparisons and the cast to \<^verbatim>\<open>long\<close> are exact.
    Overflow to infinity and subnormal numbers are not modelled: they need magnitudes that
    \<^verbatim>\<open>long\<close> rates, sizes and percentages do not produce.
  \<^item> \<^verbatim>\<open>domain_info*\<close> handles are the domain ids; the heap of descriptors is the function
    \<open>dominfo\<close> of the scheduler state, and \<^verbatim>\<open>doms.managed\<close> is the list of its keys in
    ascending order (the iteration order of \<^verbatim>\<open>foreach_managed_domain\<close>).
  \<^item> \<^verbatim>\<open>fatal_msg\<close> ends the process; it is the \<open>Inl\<close> branch of a sum.
\<close>

subsection \<open>Helpers of \<^verbatim>\<open>membalanced.h\<close>\<close>

datatype fatal = Fatal string

text \<open>\<^verbatim>\<open>#define roundup(n, r)  ((((n) + (r) - 1) / (r)) * (r))\<close> and
  \<^verbatim>\<open>#define rounddown(n, r)  (((n) / (r)) * (r))\<close>, used with \<^verbatim>\<open>r = memquant_kbs\<close>
  (an \<^verbatim>\<open>unsigned long\<close>) on non-negative \<open>n\<close>, where C division and \<open>div\<close> agree.\<close>

definition roundup :: "int \<Rightarrow> nat \<Rightarrow> int" where
  "roundup n r = ((n + int r - 1) div int r) * int r"

definition rounddown :: "int \<Rightarrow> nat \<Rightarrow> int" where
  "rounddown n r = (n div int r) * int r"

text \<open>The cast \<^verbatim>\<open>(long) x\<close> of a double truncates towards zero.\<close>

definition long_of_double :: "real \<Rightarrow> int" where
  "long_of_double x = (if 0 \<le> x then \<lfloor>x\<rfloor> else \<lceil>x\<rceil>)"

subsection \<open>Rounding to \<^verbatim>\<open>double\<close>\<close>

text \<open>Rounding of a real to the nearest integer, ties to the even one.\<close>

definition round_even :: "real \<Rightarrow> int" where
  "round_even y =
     (let f = \<lfloor>y\<rfloor> in
      if y - of_int f < 1 / 2 then f
      else if y - of_int f > 1 / 2 then f + 1
      else if even f then f else f + 1)"

text \<open>The binary exponent of the last place of \<open>x \<noteq> 0\<close>: the \<open>e\<close> with
  \<open>2^52 \<le> \<bar>x\<bar> / 2^e < 2^53\<close>.\<close>

definition binexp :: "real \<Rightarrow> int" where
  "binexp x = \<lfloor>log 2 \<bar>x\<bar>\<rfloor> - 52"

text \<open>IEEE 754 round-to-nearest-even to binary64, in the range of normal numbers.\<close>

definition rnd :: "real \<Rightarrow> real" where
  "rnd x =
     (if x = 0 then 0
      else of_int (round_even (x / (2::real) powr of_int (binexp x)))
             * (2::real) powr of_int (binexp x))"

lemma round_even_error: "\<bar>of_int (round_even y) - y\<bar> \<le> 1 / 2"
proof -
  have "of_int \<lfloor>y\<rfloor> \<le> y" "y < of_int \<lfloor>y\<rfloor> + 1" by linarith+
  then show ?thesis by (auto simp add: round_even_def Let_def)
qed

lemma round_even_int: "round_even (of_int n) = n"
  by (simp add: round_even_def)

lemma binexp_bounds:
  assumes "x \<noteq> 0"
  shows "(2::real) powr of_int (binexp x) * 2 ^ 52 \<le> \<bar>x\<bar>"
    and "\<bar>x\<bar> < (2::real) powr of_int (binexp x) * 2 ^ 53"
proof -
  let ?l = "log 2 \<bar>x\<bar>"
  have ax: "0 < \<bar>x\<bar>" using assms by simp
  have x: "(2::real) powr ?l = \<bar>x\<bar>" using ax by simp
  have p: "(2::real) powr of_int (binexp x) * 2 ^ 52 = (2::real) powr of_int \<lfloor>?l\<rfloor>"
  proof -
    have "(2::real) ^ 52 = 2 powr 52" by simp
    then have "(2::real) powr of_int (binexp x) * 2 ^ 52 = (2::real) powr (of_int (binexp x) + 52)"
      by (simp only: powr_add)
    also have "of_int (binexp x) + (52::real) = of_int \<lfloor>?l\<rfloor>" by (simp add: binexp_def)
    finally show ?thesis .
  qed
  have "(2::real) powr of_int \<lfloor>?l\<rfloor> \<le> 2 powr ?l" by (rule powr_mono) simp_all
  then show "(2::real) powr of_int (binexp x) * 2 ^ 52 \<le> \<bar>x\<bar>" by (simp only: p x)
  have "(2::real) powr ?l < (2::real) powr (of_int \<lfloor>?l\<rfloor> + 1)" by (rule powr_less_mono) (linarith, simp)
  also have "\<dots> = (2::real) powr of_int \<lfloor>?l\<rfloor> * 2" by (simp add: powr_add)
  finally have "\<bar>x\<bar> < (2::real) powr of_int \<lfloor>?l\<rfloor> * 2" by (simp only: x)
  then show "\<bar>x\<bar> < (2::real) powr of_int (binexp x) * 2 ^ 53" by (simp only: p[symmetric]) simp
qed

lemma rnd_error: "\<bar>rnd x - x\<bar> \<le> \<bar>x\<bar> / 2 ^ 53"
proof (cases "x = 0")
  case True
  then show ?thesis by (simp add: rnd_def)
next
  case False
  define p where "p = (2::real) powr of_int (binexp x)"
  have p0: "0 < p" by (simp add: p_def)
  have "rnd x - x = (of_int (round_even (x / p)) - x / p) * p"
    using False p0 by (simp add: rnd_def p_def algebra_simps)
  then have "\<bar>rnd x - x\<bar> = \<bar>of_int (round_even (x / p)) - x / p\<bar> * p"
    using p0 by (simp add: abs_mult)
  also have "\<dots> \<le> 1 / 2 * p"
    using round_even_error[of "x / p"] p0 by (intro mult_right_mono) simp_all
  also have "\<dots> \<le> \<bar>x\<bar> / 2 ^ 53"
    using binexp_bounds(1)[OF False] by (simp add: p_def)
  finally show ?thesis .
qed

lemma rnd_int:
  assumes "\<bar>n\<bar> < 2 ^ 53"
  shows "rnd (of_int n) = of_int n"
proof (cases "n = 0")
  case True
  then show ?thesis by (simp add: rnd_def)
next
  case False
  define x :: real where "x = of_int n"
  have x0: "x \<noteq> 0" using False by (simp add: x_def)
  define e where "e = binexp x"
  have ax: "\<bar>x\<bar> < 2 ^ 53" using assms unfolding x_def
    by (metis of_int_abs of_int_less_numeral_power_cancel_iff)
  have "(2::real) powr of_int e * 2 ^ 52 \<le> \<bar>x\<bar>" using binexp_bounds(1)[OF x0] by (simp add: e_def)
  with ax have "(2::real) powr of_int e * 2 ^ 52 < 2 ^ 53" by linarith
  then have "(2::real) powr of_int e < (2::real) powr 1" by simp
  then have "real_of_int e < 1" by (simp only: powr_less_cancel_iff[of 2]) 
  then have e0: "e \<le> 0" by linarith
  define m where "m = nat (- e)"
  have em: "of_int e = - real m" using e0 by (simp add: m_def)
  have pe: "(2::real) powr of_int e = 1 / 2 ^ m"
    by (simp add: em powr_minus powr_realpow divide_simps)
  have "x / (2::real) powr of_int e = of_int (n * 2 ^ m)" by (simp add: pe x_def)
  then have "round_even (x / (2::real) powr of_int e) = n * 2 ^ m" by (simp only: round_even_int)
  then have "rnd x = of_int (n * 2 ^ m) * (1 / 2 ^ m)"
    using x0 by (simp add: rnd_def e_def[symmetric] pe)
  then show ?thesis by (simp add: x_def)
qed

lemma rnd_nonpos: "x \<le> 0 \<Longrightarrow> rnd x \<le> 0"
proof -
  assume x: "x \<le> 0"
  have "\<bar>x\<bar> / 2 ^ 53 \<le> \<bar>x\<bar>" by (simp add: divide_le_eq)
  with rnd_error[of x] x show ?thesis by linarith
qed

lemma rnd_nonneg: "0 \<le> x \<Longrightarrow> 0 \<le> rnd x"
proof -
  assume x: "0 \<le> x"
  have "\<bar>x\<bar> / 2 ^ 53 \<le> \<bar>x\<bar>" by (simp add: divide_le_eq)
  with rnd_error[of x] x show ?thesis by linarith
qed

lemma rnd_0: "rnd 0 = 0"
  by (simp add: rnd_def)

lemma rnd_1: "rnd 1 = 1"
  using rnd_int[of 1] by simp

lemma rnd_numeral: "numeral k < (2::int) ^ 53 \<Longrightarrow> rnd (numeral k) = numeral k"
  using rnd_int[of "numeral k"] by simp

lemma rnd_neg_numeral: "numeral k < (2::int) ^ 53 \<Longrightarrow> rnd (- numeral k) = - numeral k"
  using rnd_int[of "- numeral k"] by simp

lemmas rnd_eval = rnd_0 rnd_1 rnd_numeral rnd_neg_numeral

subsection \<open>Global configuration (\<^verbatim>\<open>config.h\<close>, \<^verbatim>\<open>config_def.h\<close>)\<close>

text \<open>A \<^verbatim>\<open>CONFIG_ITEM\<close>: the value with its bits in \<^verbatim>\<open>isset_mask\<close> and \<^verbatim>\<open>isdef_mask\<close>.\<close>

datatype 'a config_item = Config_Item (item_val: 'a) (isset: bool) (isdef: bool)

definition isval :: "'a config_item \<Rightarrow> bool" where
  "isval i = (isset i \<or> isdef i)"

record membalance_config =
  cfg_interval :: int
  cfg_host_reserved_hard :: int
  cfg_host_reserved_soft :: int
  cfg_rate_high :: "int config_item"
  cfg_rate_low :: "int config_item"
  cfg_rate_zero :: "int config_item"
  cfg_dmem_incr :: "real config_item"
  cfg_dmem_decr :: "real config_item"
  cfg_guest_free_threshold :: "real config_item"
  cfg_startup_time :: "int config_item"
  cfg_trim_unresponsive :: "int config_item"
  cfg_trim_unmanaged :: "bool config_item"

text \<open>\<^verbatim>\<open>CONFIG_ITEM_CONST(shrink_protection_time, u_int, 1)\<close>\<close>

definition shrink_protection_time :: "64 word" where
  "shrink_protection_time = 1"

subsection \<open>Domain descriptor (\<^verbatim>\<open>domain_info.h\<close>)\<close>

datatype tribool = TriFalse | TriTrue | TriMaybe

datatype balside_t = RebalanceSide_NEUTRAL | RebalanceSide_EXPANDING | RebalanceSide_SHRINKING

definition CTRL_MODE_AUTO :: nat where "CTRL_MODE_AUTO = 1"
definition CTRL_MODE_DIRECT :: nat where "CTRL_MODE_DIRECT = 2"

text \<open>\<^verbatim>\<open>class rate_record\<close>\<close>

record rate_record =
  rr_tick :: "64 word"
  rr_rate :: int

text \<open>Settings read from Xenstore and from the Xen domain config file.\<close>

record domain_config =
  xs_mem_max :: int
  xs_mem_videoram :: int
  ctrl_modes_allowed :: nat
  xc_memory :: int
  xc_dmem_max :: int
  xc_dmem_quota :: int
  xc_dmem_min :: int
  xc_dmem_incr :: real
  xc_dmem_decr :: real
  xc_rate_high :: int
  xc_rate_low :: int
  xc_rate_zero :: int
  xc_guest_free_threshold :: real
  xc_startup_time :: int
  xc_trim_unresponsive :: int
  xc_trim_unmanaged :: tribool

text \<open>Active settings, resolved against the global configuration.\<close>

record domain_settings = domain_config +
  dmem_max :: int
  dmem_quota :: int
  dmem_min :: int
  dmem_incr :: real
  dmem_decr :: real
  rate_high :: int
  rate_low :: int
  rate_zero :: int
  guest_free_threshold :: real
  startup_time :: int
  trim_unresponsive :: int
  trim_unmanaged :: bool

text \<open>Fields of the scheduling algorithm. \<open>xc_runnable\<close> is \<^verbatim>\<open>runnable(dom->xcinfo)\<close>: none
  of the flags dying, shutdown, paused is set. \<open>report_raw\<close> is \<open>None\<close> for a NULL pointer.\<close>

record domain_info = domain_settings +
  last_report_tick :: "64 word"
  no_report_time :: int
  rate_history :: "rate_record list"
  time_rate_below_low :: int
  time_rate_below_high :: int
  last_expand_tick :: "64 word"
  xc_runnable :: bool
  report_raw :: "string option"
  valid_data :: bool
  trimming_to_quota :: bool
  balside :: balside_t
  rate :: int
  freepct :: real
  fast_rate :: int
  slow_rate :: int
  memgoal0 :: int
  memsize0 :: int
  memsize :: int
  memsize_incr :: int
  memsize_decr :: int
  expand_force :: real
  resist_force :: real
  expand_force0 :: real

subsection \<open>Scheduler state (static data of \<^verbatim>\<open>sched.cpp\<close>, globals of \<^verbatim>\<open>membalanced.h\<close>)\<close>

record sched_state =
  sched_tick :: "64 word"
  host_free :: int
  config :: membalance_config
  memquant_kbs :: nat
  memsched_pause_level :: nat
  managed :: "int list"
  dominfo :: "int \<Rightarrow> domain_info"

definition upd_dom :: "int \<Rightarrow> (domain_info \<Rightarrow> domain_info) \<Rightarrow> sched_state \<Rightarrow> sched_state" where
  "upd_dom d f st = st\<lparr>dominfo := (dominfo st)(d := f (dominfo st d))\<rparr>"

text \<open>\<^verbatim>\<open>static const double resist_force_free_soft = 45;\<close>\<close>

definition resist_force_free_soft :: real where
  "resist_force_free_soft = 45"

subsection \<open>Stage 4: expansion into free memory\<close>

text \<open>\<^verbatim>\<open>free_allocate\<close>: returns the allocated amount and updates \<^verbatim>\<open>host_free\<close>.\<close>

definition free_allocate :: "real \<Rightarrow> int \<Rightarrow> sched_state \<Rightarrow> fatal + (int \<times> sched_state)" where
  "free_allocate expand_force_v need st =
     (if need < 0 then Inl (Fatal ''bug: free_allocate: need < 0'')
      else
        let reserve = (if expand_force_v > resist_force_free_soft
                       then cfg_host_reserved_hard (config st)
                       else cfg_host_reserved_soft (config st));
            avail = host_free st - reserve
        in if avail \<le> 0 then Inr (0, st)
           else
             let allocated = rounddown (min avail need) (memquant_kbs st)
             in Inr (allocated, st\<lparr>host_free := host_free st - allocated\<rparr>))"

text \<open>\<^verbatim>\<open>expand_into_freemem\<close>: \<open>True\<close> when memory was added to the domain.\<close>

definition expand_into_freemem :: "int \<Rightarrow> int \<Rightarrow> sched_state \<Rightarrow> fatal + (bool \<times> sched_state)" where
  "expand_into_freemem d need st =
     (case free_allocate (expand_force (dominfo st d)) need st of
        Inl e \<Rightarrow> Inl e
      | Inr (chunk, st') \<Rightarrow>
          if chunk = 0 then Inr (False, st')
          else Inr (True, upd_dom d (\<lambda>di. di\<lparr>memsize := memsize di + chunk\<rparr>) st'))"

subsection \<open>Guest reports (\<^verbatim>\<open>domain_info::parse_domain_report\<close>)\<close>

text \<open>The C library is outside the repository. \<open>strtol\<close> and \<open>strtod\<close> are parameters: for
  a string they give the converted value, the number of characters consumed
  (\<^verbatim>\<open>ep - cp\<close>) and whether \<^verbatim>\<open>errno\<close> was set. \<open>fmt_ld\<close> is \<^verbatim>\<open>sprintf("%ld")\<close>.\<close>

record libc =
  strtol :: "string \<Rightarrow> int \<times> nat \<times> bool"
  strtod :: "string \<Rightarrow> real \<times> nat \<times> bool"
  fmt_ld :: "int \<Rightarrow> string"

definition isdigit :: "char \<Rightarrow> bool" where
  "isdigit c = (c \<in> set ''0123456789'')"

definition isblank :: "char \<Rightarrow> bool" where
  "isblank c = (c = CHR '' '' \<or> c = CHR 0x09)"

text \<open>\<^verbatim>\<open>a2long\<close> (\<^verbatim>\<open>config_parser.cpp\<close>): the result flag and the value stored through
  \<^verbatim>\<open>pval\<close>. The test \<^verbatim>\<open>*ep\<close> fails when characters are left over.\<close>

definition a2long :: "libc \<Rightarrow> string \<Rightarrow> bool \<times> int" where
  "a2long lc cp =
     (case strtol lc cp of
        (v, n, err) \<Rightarrow> (\<not> (err \<or> n = 0 \<or> n < length cp), v))"

text \<open>\<^verbatim>\<open>a2double\<close>: as above, and the first character must be a digit.\<close>

definition a2double :: "libc \<Rightarrow> string \<Rightarrow> bool \<times> real" where
  "a2double lc cp =
     (case strtod lc cp of
        (v, n, err) \<Rightarrow>
          (\<not> (err \<or> n = 0 \<or> n < length cp \<or> \<not> (case cp of [] \<Rightarrow> False | c # _ \<Rightarrow> isdigit c)), v))"

text \<open>The tokens of \<^verbatim>\<open>strtok_r(s, "\n", ...)\<close>: the maximal non-empty runs of characters other
  than newline. \<open>acc\<close> holds the current run, reversed.\<close>

fun strtok_nl :: "string \<Rightarrow> string \<Rightarrow> string list" where
  "strtok_nl acc [] = (if acc = [] then [] else [rev acc])"
| "strtok_nl acc (c # cs) =
     (if c = CHR 0x0A
      then (if acc = [] then [] else [rev acc]) @ strtok_nl [] cs
      else strtok_nl (c # acc) cs)"

text \<open>One pass of the loop body: a token without a colon is skipped, otherwise
  \<^verbatim>\<open>set_kv(kv, key, val)\<close> overwrites the entry of the key.\<close>

definition report_line :: "(string \<rightharpoonup> string) \<Rightarrow> string \<Rightarrow> (string \<rightharpoonup> string)" where
  "report_line kv token =
     (if CHR '':'' \<in> set token
      then kv(takeWhile (\<lambda>c. c \<noteq> CHR '':'') token
                \<mapsto> dropWhile isblank (tl (dropWhile (\<lambda>c. c \<noteq> CHR '':'') token)))
      else kv)"

definition report_kv :: "string \<Rightarrow> (string \<rightharpoonup> string)" where
  "report_kv body = foldl report_line Map.empty (strtok_nl [] body)"

text \<open>The result flag, and the descriptor afterwards: \<open>None\<close> when the domain was unmanaged
  (and its descriptor deleted) because of a malformed report.\<close>

definition parse_domain_report :: "libc \<Rightarrow> domain_info \<Rightarrow> bool \<times> domain_info option" where
  "parse_domain_report lc di =
     (case report_raw di of
        None \<Rightarrow> (False, Some di)
      | Some raw \<Rightarrow>
          (case raw of
             c0 # c1 # body \<Rightarrow>
               if c0 \<noteq> CHR ''A'' \<or> c1 \<noteq> CHR 0x0A then (False, None)
               else
                 let kv = report_kv body in
                 if kv ''action'' \<noteq> Some ''report'' then (False, None)
                 else (case kv ''kbsec'' of
                     None \<Rightarrow> (False, None)
                   | Some ks \<Rightarrow>
                       (case a2long lc ks of
                          (False, _) \<Rightarrow> (False, None)
                        | (True, r) \<Rightarrow>
                            (case kv ''freepct'' of
                               None \<Rightarrow> (False, None)
                             | Some fs \<Rightarrow>
                                 (case a2double lc fs of
                                    (False, _) \<Rightarrow> (False, None)
                                  | (True, f) \<Rightarrow>
                                      (True, Some (di\<lparr>rate := r, freepct := f,
                                                       report_raw := None\<rparr>))))))
           | _ \<Rightarrow> (False, None)))"

subsection \<open>Rate smoothing (\<^verbatim>\<open>domain_info::calc_rates\<close>, \<^verbatim>\<open>domain_info::weight_samples\<close>)\<close>

definition slow_weights :: "real list" where
  "slow_weights = [10, 3, 2, 2, 1]"

text \<open>The \<^verbatim>\<open>for\<close> loop of \<^verbatim>\<open>weight_samples\<close> from index \<open>k\<close> on. The gap is computed in
  \<^verbatim>\<open>unsigned long\<close> and stored in an \<^verbatim>\<open>int\<close>; the rate is converted to \<^verbatim>\<open>double\<close>,
  and the product and the two sums are rounded.\<close>

function weight_loop ::
  "real list \<Rightarrow> rate_record list \<Rightarrow> nat \<Rightarrow> nat \<Rightarrow> 64 word \<Rightarrow> real \<Rightarrow> real \<Rightarrow> fatal + (real \<times> real)"
where
  "weight_loop weights hist nel k prev_tick sum_rate sum_weight =
     (if k < nel then
        let rr = hist ! k;
            gap = (if k \<noteq> 0 then sint (ucast (prev_tick - rr_tick rr - 1) :: 32 word) else 0)
        in if gap < 0 then Inl (Fatal ''bug: weight_samples bad gap'')
           else if gap > 1 then Inr (sum_rate, sum_weight)
           else
             let k' = k + nat gap in
             if k' \<ge> nel then Inr (sum_rate, sum_weight)
             else weight_loop weights hist nel (Suc k') (rr_tick rr)
                    (rnd (sum_rate + rnd (rnd (real_of_int (rr_rate rr)) * weights ! k')))
                    (rnd (sum_weight + weights ! k'))
      else Inr (sum_rate, sum_weight))"
  by pat_completeness auto
termination
  by (relation "measure (\<lambda>(weights, hist, nel, k, prev_tick, sum_rate, sum_weight). nel - k)") auto

declare weight_loop.simps [simp del]

text \<open>The gap that \<^verbatim>\<open>weight_samples\<close> computes between a sample and a later element of
  the history.\<close>

definition tick_gap :: "rate_record \<Rightarrow> rate_record \<Rightarrow> int" where
  "tick_gap a b = sint (ucast (rr_tick a - rr_tick b - 1) :: 32 word)"

text \<open>The quotient of the two sums, rounded. The sum of the weights is at least the first
  weight, since \<^verbatim>\<open>calc_rates\<close> has put the current sample into the history.\<close>

definition weight_samples :: "real list \<Rightarrow> nat \<Rightarrow> rate_record list \<Rightarrow> fatal + real" where
  "weight_samples weights nweights hist =
     (case weight_loop weights hist (min nweights (length hist)) 0 0 0 0 of
        Inl e \<Rightarrow> Inl e
      | Inr (sum_rate, sum_weight) \<Rightarrow> Inr (rnd (sum_rate / sum_weight)))"

definition calc_rates :: "64 word \<Rightarrow> domain_info \<Rightarrow> fatal + domain_info" where
  "calc_rates tick di =
     (let hist = take (length slow_weights)
                   (\<lparr>rr_tick = tick, rr_rate = rate di\<rparr> # rate_history di)
      in case weight_samples slow_weights (length slow_weights) hist of
           Inl e \<Rightarrow> Inl e
         | Inr w \<Rightarrow>
             Inr (di\<lparr>rate_history := hist,
                      fast_rate := rate di,
                      slow_rate := max (rate di) (long_of_double w)\<rparr>))"

subsection \<open>Stage 1: the report of one managed domain (\<^verbatim>\<open>stage_collect_data\<close>)\<close>

text \<open>The tail of the loop body: only runnable domains that reported in this or the
  previous tick have valid data.\<close>

definition collect_valid :: "sched_state \<Rightarrow> domain_info \<Rightarrow> domain_info" where
  "collect_valid st di =
     (if \<not> xc_runnable di then di
      else if sched_tick st > last_report_tick di + 1 then di
      else di\<lparr>valid_data := True\<rparr>)"

text \<open>The head of the \<^verbatim>\<open>has_report\<close> branch: the report is recorded and the reported
  rate is treated as 0 when the guest has plenty of free memory or the rate is at most
  \<^verbatim>\<open>rate_zero\<close>. The threshold is read from the global \<^verbatim>\<open>config\<close>.\<close>

definition report_rate :: "sched_state \<Rightarrow> domain_info \<Rightarrow> domain_info" where
  "report_rate st d1 =
     (let d2 = d1\<lparr>no_report_time := 0, last_report_tick := sched_tick st\<rparr>;
          d3 = (if freepct d2 > rnd (item_val (cfg_guest_free_threshold (config st)) * 100)
                then d2\<lparr>rate := 0\<rparr> else d2)
      in if rate d3 \<le> rate_zero d3 then d3\<lparr>rate := 0\<rparr> else d3)"

text \<open>The accounting for the rate history after \<^verbatim>\<open>calc_rates\<close>.\<close>

definition account_rates :: "sched_state \<Rightarrow> domain_info \<Rightarrow> domain_info" where
  "account_rates st d5 =
     (let d6 = (if slow_rate d5 \<le> rate_low d5
                then d5\<lparr>time_rate_below_low := time_rate_below_low d5 + cfg_interval (config st)\<rparr>
                else d5\<lparr>time_rate_below_low := 0\<rparr>)
      in if fast_rate d6 < rate_high d6
         then d6\<lparr>time_rate_below_high := time_rate_below_high d6 + cfg_interval (config st)\<rparr>
         else d6\<lparr>time_rate_below_high := 0\<rparr>)"

text \<open>The body of the second \<^verbatim>\<open>foreach_managed_domain\<close> loop. \<open>trim_to_quota\<close> is the
  hypervisor call of \<^verbatim>\<open>xen.cpp\<close>, a parameter. The result is \<open>None\<close> when the domain was
  unmanaged because of a malformed report.\<close>

definition collect_domain ::
  "libc \<Rightarrow> (domain_info \<Rightarrow> bool) \<Rightarrow> sched_state \<Rightarrow> domain_info \<Rightarrow> fatal + domain_info option"
where
  "collect_domain lc trim_to_quota st di =
     (case (if report_raw di \<noteq> None then parse_domain_report lc di else (False, Some di)) of
        (_, None) \<Rightarrow> Inr None
      | (has_report, Some d1) \<Rightarrow>
          if has_report then
            (case calc_rates (sched_tick st) (report_rate st d1) of
               Inl e \<Rightarrow> Inl e
             | Inr d5 \<Rightarrow> Inr (Some (collect_valid st (account_rates st d5))))
          else if xc_runnable d1 then
            let d2 = d1\<lparr>no_report_time := no_report_time d1 + cfg_interval (config st)\<rparr>
            in if trim_unresponsive d2 > 0 \<and> no_report_time d2 > trim_unresponsive d2
                  \<and> memsched_pause_level st = 0 \<and> trim_to_quota d2
               then Inr (Some (d2\<lparr>trimming_to_quota := True, memgoal0 := dmem_quota d2,
                                   memsize0 := dmem_quota d2, memsize := dmem_quota d2\<rparr>))
               else Inr (Some (collect_valid st d2))
          else Inr (Some (collect_valid st d1)))"

subsection \<open>Settings resolution (\<^verbatim>\<open>domain_info::resolve_settings\<close>)\<close>

text \<open>The messages of \<^verbatim>\<open>resolve_settings\<close>: one \<^verbatim>\<open>undefined_setting(key)\<close> per missing
  parameter, the error "parameter values are incoherent ..., unfulfilled: msg", and the
  warning that \<^verbatim>\<open>dmem_min == dmem_max\<close>.\<close>

datatype log_entry = Undefined_setting string | Incoherent string | Min_eq_max int

definition automode :: "domain_info \<Rightarrow> bool" where
  "automode di = (ctrl_modes_allowed di AND CTRL_MODE_AUTO \<noteq> 0)"

text \<open>An \<^verbatim>\<open>if ... else if ...\<close> chain of the resolution yields \<open>Some\<close> value, or \<open>None\<close> in
  its last branch; \<open>assign\<close> stores the value when there is one and \<open>undef\<close> is the call
  of \<^verbatim>\<open>undefined_setting\<close> otherwise.\<close>

definition assign :: "'a option \<Rightarrow> 'a \<Rightarrow> 'a" where
  "assign v old = (case v of Some x \<Rightarrow> x | None \<Rightarrow> old)"

definition undef :: "string \<Rightarrow> 'a option \<Rightarrow> string list" where
  "undef key v = (case v of Some x \<Rightarrow> [] | None \<Rightarrow> [key])"

definition xc_or_config :: "bool \<Rightarrow> 'a \<Rightarrow> 'a config_item \<Rightarrow> 'a option" where
  "xc_or_config xc_given xc_v item =
     (if xc_given then Some xc_v else if isval item then Some (item_val item) else None)"

definition bool_of_tribool :: "tribool \<Rightarrow> bool" where
  "bool_of_tribool t = (t \<noteq> TriFalse)"

text \<open>The first part of \<^verbatim>\<open>resolve_settings\<close>, up to \<^verbatim>\<open>CHECK(valid)\<close>: the descriptor with
  the resolved values and the keys reported undefined, in order.\<close>

definition resolve_values :: "membalance_config \<Rightarrow> domain_info \<Rightarrow> domain_info \<times> string list" where
  "resolve_values cfg di =
     (let v_min = (if xc_dmem_min di \<ge> 0 then Some (xc_dmem_min di)
                   else if xc_memory di \<ge> 0 then Some (xc_memory di) else None);
          v_max = (if xc_dmem_max di \<ge> 0 then Some (xc_dmem_max di)
                   else if xs_mem_max di \<ge> 0 then Some (xs_mem_max di)
                   else if xc_memory di \<ge> 0 then Some (xc_memory di) else None);
          d1 = di\<lparr>dmem_min := assign v_min (dmem_min di),
                  dmem_max := assign v_max (dmem_max di)\<rparr>;
          u1 = undef ''dmem_min'' v_min @ undef ''dmem_max'' v_max
      in if automode di then
           let v_quota = (if xc_dmem_quota di \<ge> 0 then Some (xc_dmem_quota di)
                          else if xc_memory di \<ge> 0 then Some (xc_memory di) else None);
               v_incr = xc_or_config (xc_dmem_incr di \<ge> 0) (xc_dmem_incr di) (cfg_dmem_incr cfg);
               v_decr = xc_or_config (xc_dmem_decr di \<ge> 0) (xc_dmem_decr di) (cfg_dmem_decr cfg);
               v_high = xc_or_config (xc_rate_high di \<ge> 0) (xc_rate_high di) (cfg_rate_high cfg);
               v_low = xc_or_config (xc_rate_low di \<ge> 0) (xc_rate_low di) (cfg_rate_low cfg);
               v_zero = xc_or_config (xc_rate_zero di \<ge> 0) (xc_rate_zero di) (cfg_rate_zero cfg);
               v_gft = xc_or_config (xc_guest_free_threshold di \<ge> 0)
                         (xc_guest_free_threshold di) (cfg_guest_free_threshold cfg);
               v_startup = xc_or_config (xc_startup_time di \<ge> 0)
                         (xc_startup_time di) (cfg_startup_time cfg);
               v_unresp = xc_or_config (xc_trim_unresponsive di \<ge> 0)
                         (xc_trim_unresponsive di) (cfg_trim_unresponsive cfg);
               v_unman = xc_or_config (xc_trim_unmanaged di \<noteq> TriMaybe)
                         (bool_of_tribool (xc_trim_unmanaged di)) (cfg_trim_unmanaged cfg)
           in (d1\<lparr>dmem_quota := assign v_quota (dmem_quota di),
                   dmem_incr := assign v_incr (dmem_incr di),
                   dmem_decr := assign v_decr (dmem_decr di),
                   rate_high := assign v_high (rate_high di),
                   rate_low := assign v_low (rate_low di),
                   rate_zero := assign v_zero (rate_zero di),
                   guest_free_threshold := assign v_gft (guest_free_threshold di),
                   startup_time := assign v_startup (startup_time di),
                   trim_unresponsive := assign v_unresp (trim_unresponsive di),
                   trim_unmanaged := assign v_unman (trim_unmanaged di)\<rparr>,
               u1 @ undef ''dmem_quota'' v_quota @ undef ''dmem_incr'' v_incr
                  @ undef ''dmem_decr'' v_decr @ undef ''rate_high'' v_high
                  @ undef ''rate_low'' v_low @ undef ''rate_zero'' v_zero
                  @ undef ''guest_free_threshold'' v_gft)
         else (d1, u1))"

text \<open>Rounding of the sizes up to the allocation quantum.\<close>

definition round_sizes :: "nat \<Rightarrow> domain_info \<Rightarrow> domain_info" where
  "round_sizes q di =
     di\<lparr>dmem_max := (if dmem_max di \<ge> 0 then roundup (dmem_max di) q else dmem_max di),
        dmem_min := (if dmem_min di \<ge> 0 then roundup (dmem_min di) q else dmem_min di),
        dmem_quota := (if dmem_quota di \<ge> 0 then roundup (dmem_quota di) q else dmem_quota di)\<rparr>"

text \<open>The six consistency blocks, in order: whether the block fires, and the text it
  appends to \<^verbatim>\<open>msg\<close>.\<close>

definition coherence_checks :: "libc \<Rightarrow> nat \<Rightarrow> domain_info \<Rightarrow> (bool \<times> string) list" where
  "coherence_checks lc q di =
     [(automode di \<and> \<not> (rate_low di < rate_high di),
         ''rate_low ('' @ fmt_ld lc (rate_low di) @ '') < rate_high (''
           @ fmt_ld lc (rate_high di) @ '')''),
      (automode di \<and> \<not> (dmem_min di \<le> dmem_quota di),
         ''dmem_min ('' @ fmt_ld lc (dmem_min di) @ '') <= dmem_quota (''
           @ fmt_ld lc (dmem_quota di) @ '')''),
      (automode di \<and> \<not> (dmem_quota di \<le> dmem_max di),
         ''dmem_quota ('' @ fmt_ld lc (dmem_quota di) @ '') <= dmem_max (''
           @ fmt_ld lc (dmem_max di) @ '')''),
      (\<not> automode di \<and> \<not> (dmem_min di \<le> dmem_max di),
         ''dmem_min ('' @ fmt_ld lc (dmem_min di) @ '') <= dmem_max (''
           @ fmt_ld lc (dmem_max di) @ '')''),
      (\<not> (dmem_max di \<le> xs_mem_max di),
         ''dmem_max (rounded up to page size: '' @ fmt_ld lc (dmem_max di) @ '') <= maxmem (''
           @ fmt_ld lc (xs_mem_max di) @ '')''),
      (xs_mem_videoram di > 0 \<and> xs_mem_videoram di mod int q \<noteq> 0,
         ''videoram ('' @ fmt_ld lc (xs_mem_videoram di) @ '') is multiple of page size (''
           @ fmt_ld lc (int q) @ ''K)'')]"

text \<open>One consistency block: \<^verbatim>\<open>if (msg.length() != 0) msg += ", "; msg += buf; valid = false;\<close>\<close>

definition add_cond :: "string \<times> bool \<Rightarrow> bool \<times> string \<Rightarrow> string \<times> bool" where
  "add_cond acc chk =
     (case acc of (msg, valid) \<Rightarrow>
        if fst chk then ((if msg \<noteq> [] then msg @ '', '' else msg) @ snd chk, False)
        else (msg, valid))"

definition resolve_settings ::
  "libc \<Rightarrow> membalance_config \<Rightarrow> nat \<Rightarrow> domain_info \<Rightarrow> bool \<times> log_entry list \<times> domain_info"
where
  "resolve_settings lc cfg q di =
     (case resolve_values cfg di of
        (d1, undefd) \<Rightarrow>
          if undefd \<noteq> [] then (False, map Undefined_setting undefd, d1)
          else
            let d2 = round_sizes q d1 in
            (case foldl add_cond ([], True) (coherence_checks lc q d2) of
               (msg, valid) \<Rightarrow>
                 if \<not> valid then (False, [Incoherent msg], d2)
                 else if dmem_min d2 = dmem_max d2 then (False, [Min_eq_max (dmem_min d2)], d2)
                 else (True, [], d2)))"

subsection \<open>Inlines of \<^verbatim>\<open>sched.cpp\<close>\<close>

datatype category_t = C_LOW | C_MID | C_HIGH

definition runnable :: "domain_info \<Rightarrow> bool" where
  "runnable di = xc_runnable di"

definition rate_category :: "domain_info \<Rightarrow> int \<Rightarrow> category_t" where
  "rate_category di r =
     (if r \<ge> rate_high di then C_HIGH else if r \<le> rate_low di then C_LOW else C_MID)"

definition size_resist_category :: "domain_info \<Rightarrow> int \<Rightarrow> category_t" where
  "size_resist_category di sz =
     (if sz > dmem_quota di then C_HIGH else if sz \<le> dmem_min di then C_LOW else C_MID)"

definition size_expand_category :: "domain_info \<Rightarrow> int \<Rightarrow> category_t" where
  "size_expand_category di sz =
     (if sz \<ge> dmem_quota di then C_HIGH else if sz < dmem_min di then C_LOW else C_MID)"

text \<open>\<^verbatim>\<open>(sched_tick - dom->last_expand_tick) <= config.shrink_protection_time\<close>, in
  \<^verbatim>\<open>unsigned long\<close>.\<close>

definition is_shrink_soft_protected :: "sched_state \<Rightarrow> domain_info \<Rightarrow> bool" where
  "is_shrink_soft_protected st di =
     (sched_tick st - last_expand_tick di \<le> shrink_protection_time)"

subsection \<open>Sorting of domain vectors (\<^verbatim>\<open>class domvector\<close>)\<close>

text \<open>The predicates of \<^verbatim>\<open>std::sort\<close>: by the key, ties by the address of the descriptor.
  They are strict total orders on distinct handles, so the sorted vector is unique.\<close>

definition sort_asc :: "int \<Rightarrow> int \<Rightarrow> 'a::linordered_idom \<Rightarrow> bool" where
  "sort_asc d1 d2 delta = (if delta < 0 then True else if delta > 0 then False else d1 < d2)"

definition sort_desc :: "int \<Rightarrow> int \<Rightarrow> 'a::linordered_idom \<Rightarrow> bool" where
  "sort_desc d1 d2 delta = sort_asc d1 d2 (- delta)"

definition sortfunc_desc_by_expand_force :: "sched_state \<Rightarrow> int \<Rightarrow> int \<Rightarrow> bool" where
  "sortfunc_desc_by_expand_force st d1 d2 =
     sort_desc d1 d2 (expand_force (dominfo st d1) - expand_force (dominfo st d2))"

definition sortfunc_asc_by_resist_force :: "sched_state \<Rightarrow> int \<Rightarrow> int \<Rightarrow> bool" where
  "sortfunc_asc_by_resist_force st d1 d2 =
     sort_asc d1 d2 (resist_force (dominfo st d1) - resist_force (dominfo st d2))"

definition sortfunc_desc_by_time_rate_below_low :: "sched_state \<Rightarrow> int \<Rightarrow> int \<Rightarrow> bool" where
  "sortfunc_desc_by_time_rate_below_low st d1 d2 =
     sort_desc d1 d2 (time_rate_below_low (dominfo st d1) - time_rate_below_low (dominfo st d2))"

definition sortfunc_desc_by_time_rate_below_high :: "sched_state \<Rightarrow> int \<Rightarrow> int \<Rightarrow> bool" where
  "sortfunc_desc_by_time_rate_below_high st d1 d2 =
     sort_desc d1 d2 (time_rate_below_high (dominfo st d1) - time_rate_below_high (dominfo st d2))"

fun insort_by :: "('a \<Rightarrow> 'a \<Rightarrow> bool) \<Rightarrow> 'a \<Rightarrow> 'a list \<Rightarrow> 'a list" where
  "insort_by lt x [] = [x]"
| "insort_by lt x (y # ys) = (if lt y x then y # insort_by lt x ys else x # y # ys)"

definition sort_by :: "('a \<Rightarrow> 'a \<Rightarrow> bool) \<Rightarrow> 'a list \<Rightarrow> 'a list" where
  "sort_by lt xs = foldr (insort_by lt) xs []"

text \<open>\<^verbatim>\<open>insert_at(vec, k, val)\<close>\<close>

definition insert_at :: "'a list \<Rightarrow> nat \<Rightarrow> 'a \<Rightarrow> 'a list" where
  "insert_at vec k val = take k vec @ val # drop k vec"

subsection \<open>Stage 3: the soft reserve (\<^verbatim>\<open>sched_reserved_soft\<close>, \<^verbatim>\<open>soft_reclaim\<close>)\<close>

text \<open>The trimming loop shared by the three rounds; \<open>lower\<close> is the size a domain is trimmed
  to in the round. Returns the remaining goal.\<close>

fun trim_loop ::
  "(domain_info \<Rightarrow> int) \<Rightarrow> int list \<Rightarrow> int \<Rightarrow> sched_state \<Rightarrow> int \<times> sched_state"
where
  "trim_loop lower [] goal st = (goal, st)"
| "trim_loop lower (d # ds) goal st =
     (let trim = memsize (dominfo st d) - lower (dominfo st d) in
      if trim > 0 then
        let trim' = min trim goal;
            st' = upd_dom d (\<lambda>di. di\<lparr>memsize := memsize di - trim'\<rparr>) st;
            goal' = goal - trim'
        in if goal' \<le> 0 then (goal', st') else trim_loop lower ds goal' st'
      else trim_loop lower ds goal st)"

text \<open>The candidate tests of the rounds. The comparison \<^verbatim>\<open>dom->memsize > dom->dmem_decr\<close> of
  the source is between the size and the fraction \<^verbatim>\<open>dmem_decr\<close>.\<close>

definition soft_candidate_1 :: "sched_state \<Rightarrow> int \<Rightarrow> bool" where
  "soft_candidate_1 st d =
     (let di = dominfo st d in
      valid_data di \<and> time_rate_below_low di \<noteq> 0 \<and> memsize di > dmem_quota di
      \<and> rnd (real_of_int (memsize di)) > dmem_decr di \<and> runnable di \<and> \<not> trimming_to_quota di
      \<and> \<not> is_shrink_soft_protected st di)"

definition soft_candidate_2 :: "sched_state \<Rightarrow> int \<Rightarrow> bool" where
  "soft_candidate_2 st d =
     (let di = dominfo st d in
      valid_data di \<and> time_rate_below_low di \<noteq> 0
      \<and> rnd (real_of_int (memsize di)) > dmem_decr di \<and> runnable di \<and> \<not> trimming_to_quota di
      \<and> \<not> is_shrink_soft_protected st di)"

definition soft_candidate_3 :: "sched_state \<Rightarrow> int \<Rightarrow> bool" where
  "soft_candidate_3 st d =
     (let di = dominfo st d in
      valid_data di \<and> time_rate_below_high di \<noteq> 0 \<and> memsize di > dmem_quota di
      \<and> rnd (real_of_int (memsize di)) > dmem_decr di \<and> runnable di \<and> \<not> trimming_to_quota di
      \<and> \<not> is_shrink_soft_protected st di)"

definition soft_reclaim_round_1 :: "int \<Rightarrow> sched_state \<Rightarrow> int \<times> sched_state" where
  "soft_reclaim_round_1 goal st =
     (if goal \<le> 0 then (goal, st)
      else trim_loop (\<lambda>di. max (memsize_decr di) (dmem_quota di))
             (sort_by (sortfunc_desc_by_time_rate_below_low st)
                (filter (soft_candidate_1 st) (managed st)))
             goal st)"

definition soft_reclaim_round_2 :: "int \<Rightarrow> sched_state \<Rightarrow> int \<times> sched_state" where
  "soft_reclaim_round_2 goal st =
     (if goal \<le> 0 then (goal, st)
      else trim_loop (\<lambda>di. max (memsize_decr di) (dmem_min di))
             (sort_by (sortfunc_desc_by_time_rate_below_low st)
                (filter (soft_candidate_2 st) (managed st)))
             goal st)"

definition soft_reclaim_round_3 :: "int \<Rightarrow> sched_state \<Rightarrow> int \<times> sched_state" where
  "soft_reclaim_round_3 goal st =
     (if goal \<le> 0 then (goal, st)
      else trim_loop (\<lambda>di. max (memsize_decr di) (dmem_quota di))
             (sort_by (sortfunc_desc_by_time_rate_below_high st)
                (filter (soft_candidate_3 st) (managed st)))
             goal st)"

text \<open>\<^verbatim>\<open>soft_reclaim\<close> returns the amount recovered.\<close>

definition soft_reclaim :: "int \<Rightarrow> sched_state \<Rightarrow> int \<times> sched_state" where
  "soft_reclaim goal0 st =
     (let req = roundup goal0 (memquant_kbs st) in
      case soft_reclaim_round_1 req st of (g1, s1) \<Rightarrow>
      case soft_reclaim_round_2 g1 s1 of (g2, s2) \<Rightarrow>
      case soft_reclaim_round_3 g2 s2 of (g3, s3) \<Rightarrow> (req - g3, s3))"

definition sched_reserved_soft :: "sched_state \<Rightarrow> sched_state" where
  "sched_reserved_soft st =
     (if host_free st < cfg_host_reserved_soft (config st) then
        (case soft_reclaim (cfg_host_reserved_soft (config st) - host_free st) st of
           (reclaimed, st') \<Rightarrow> st'\<lparr>host_free := host_free st' + reclaimed\<rparr>)
      else st)"

subsection \<open>Memory pressure force calculus\<close>

text \<open>\<^verbatim>\<open>class eval_force_context\<close>. Only four entries of \<^verbatim>\<open>base[3][3]\<close> are ever assigned
  and read; the others are 0 here.\<close>

record eval_force_context =
  rmax :: int
  base :: "category_t \<Rightarrow> category_t \<Rightarrow> real"

definition force_base :: "category_t \<Rightarrow> category_t \<Rightarrow> real" where
  "force_base c_rate c_size =
     (if c_rate = C_MID \<and> c_size = C_MID then 60
      else if c_rate = C_MID \<and> c_size = C_HIGH then 30
      else if c_rate = C_HIGH \<and> c_size = C_MID then 100
      else if c_rate = C_HIGH \<and> c_size = C_HIGH then 50
      else 0)"

text \<open>\<^verbatim>\<open>base += (double) rate / rmax\<close>: both conversions, the quotient and the sum are
  rounded.\<close>

definition eval_force :: "int \<Rightarrow> real \<Rightarrow> int \<Rightarrow> real" where
  "eval_force r b rmx =
     (if rmx \<noteq> 0 then rnd (b + rnd (rnd (real_of_int r) / rnd (real_of_int rmx))) else b)"

definition eval_resist_force_context :: "sched_state \<Rightarrow> int list \<Rightarrow> eval_force_context" where
  "eval_resist_force_context st vec =
     \<lparr>rmax = foldl (\<lambda>m d. if valid_data (dominfo st d) then max m (slow_rate (dominfo st d)) else m)
               0 vec,
      base = force_base\<rparr>"

definition eval_expand_force_context :: "sched_state \<Rightarrow> int list \<Rightarrow> fatal + eval_force_context" where
  "eval_expand_force_context st vec =
     (if \<exists>d \<in> set vec. \<not> valid_data (dominfo st d)
      then Inl (Fatal ''bug: eval_expand_force: domain with no valid_data'')
      else Inr \<lparr>rmax = foldl (\<lambda>m d. max m (fast_rate (dominfo st d))) 0 vec,
                base = force_base\<rparr>)"

definition eval_resist_force :: "eval_force_context \<Rightarrow> domain_info \<Rightarrow> domain_info" where
  "eval_resist_force ctx di =
     (if \<not> valid_data di then
        (case size_resist_category di (memsize di) of
           C_LOW \<Rightarrow> di\<lparr>resist_force := 500\<rparr>
         | C_MID \<Rightarrow> di\<lparr>resist_force := 62\<rparr>
         | C_HIGH \<Rightarrow> di\<lparr>resist_force := 32\<rparr>)
      else
        let c_rate = rate_category di (slow_rate di);
            c_size = size_resist_category di (memsize di)
        in case c_size of
             C_LOW \<Rightarrow> di\<lparr>resist_force := 500\<rparr>
           | C_MID \<Rightarrow>
               (case c_rate of
                  C_LOW \<Rightarrow> di\<lparr>resist_force := 40\<rparr>
                | _ \<Rightarrow> di\<lparr>resist_force := eval_force (slow_rate di) (base ctx c_rate c_size) (rmax ctx)\<rparr>)
           | C_HIGH \<Rightarrow>
               (case c_rate of
                  C_LOW \<Rightarrow> di\<lparr>resist_force := 0\<rparr>
                | _ \<Rightarrow> di\<lparr>resist_force := eval_force (slow_rate di) (base ctx c_rate c_size) (rmax ctx)\<rparr>))"

definition eval_expand_force :: "eval_force_context \<Rightarrow> domain_info \<Rightarrow> domain_info" where
  "eval_expand_force ctx di =
     (let c_rate = rate_category di (fast_rate di);
          c_size = size_expand_category di (memsize di)
      in case c_rate of
           C_LOW \<Rightarrow> di\<lparr>expand_force := 0\<rparr>
         | C_MID \<Rightarrow>
             (case c_size of
                C_LOW \<Rightarrow> di\<lparr>expand_force := 200\<rparr>
              | _ \<Rightarrow> di\<lparr>expand_force := eval_force (fast_rate di) (base ctx c_rate c_size) (rmax ctx)\<rparr>)
         | C_HIGH \<Rightarrow>
             (case c_size of
                C_LOW \<Rightarrow> di\<lparr>expand_force := 300\<rparr>
              | _ \<Rightarrow> di\<lparr>expand_force := eval_force (fast_rate di) (base ctx c_rate c_size) (rmax ctx)\<rparr>))"

subsection \<open>Stage 4: rebalancing (\<^verbatim>\<open>sched_rebalance\<close>, \<^verbatim>\<open>rebalance_domains\<close>)\<close>

definition eps :: real where
  "eps = 1 / 2 ^ 52"

function bsearch_expand :: "sched_state \<Rightarrow> int list \<Rightarrow> int \<Rightarrow> int \<Rightarrow> int \<Rightarrow> int" where
  "bsearch_expand st vec d start end' =
     (if start \<le> end' then
        let mid = (start + end') div 2 in
        if expand_force (dominfo st d) \<ge> expand_force (dominfo st (vec ! nat mid))
        then bsearch_expand st vec d start (mid - 1)
        else bsearch_expand st vec d (mid + 1) end'
      else start)"
  by pat_completeness auto
termination
  by (relation "measure (\<lambda>(st, vec, d, start, end'). nat (end' - start + 1))") auto

declare bsearch_expand.simps [simp del]

definition insert_into_vec_expand :: "sched_state \<Rightarrow> int list \<Rightarrow> int \<Rightarrow> int list" where
  "insert_into_vec_expand st vec d =
     insert_at vec (nat (bsearch_expand st vec d 0 (int (length vec) - 1))) d"

function bsearch_shrink :: "sched_state \<Rightarrow> int list \<Rightarrow> int \<Rightarrow> int \<Rightarrow> int \<Rightarrow> int" where
  "bsearch_shrink st vec d start end' =
     (if start \<le> end' then
        let mid = (start + end') div 2 in
        if resist_force (dominfo st d) \<le> resist_force (dominfo st (vec ! nat mid))
        then bsearch_shrink st vec d start (mid - 1)
        else bsearch_shrink st vec d (mid + 1) end'
      else start)"
  by pat_completeness auto
termination
  by (relation "measure (\<lambda>(st, vec, d, start, end'). nat (end' - start + 1))") auto

declare bsearch_shrink.simps [simp del]

definition insert_into_vec_shrink :: "sched_state \<Rightarrow> int list \<Rightarrow> int \<Rightarrow> int list" where
  "insert_into_vec_shrink st vec d =
     insert_at vec (nat (bsearch_shrink st vec d 0 (int (length vec) - 1))) d"

lemma dominfo_upd_dom [simp]:
  "dominfo (upd_dom d f st) x = (if x = d then f (dominfo st d) else dominfo st x)"
  by (simp add: upd_dom_def)

lemma upd_dom_fields [simp]:
  "host_free (upd_dom d f st) = host_free st"
  "sched_tick (upd_dom d f st) = sched_tick st"
  "config (upd_dom d f st) = config st"
  "memquant_kbs (upd_dom d f st) = memquant_kbs st"
  "memsched_pause_level (upd_dom d f st) = memsched_pause_level st"
  "managed (upd_dom d f st) = managed st"
  by (simp_all add: upd_dom_def)

datatype ('a, 'b) loop_step = Break 'a | Continue 'b

definition shave_floor :: "domain_info \<Rightarrow> int" where
  "shave_floor vi =
     (if memsize vi > dmem_quota vi then max (memsize_decr vi) (dmem_quota vi)
      else memsize_decr vi)"

definition transfer :: "int \<Rightarrow> int \<Rightarrow> int \<Rightarrow> sched_state \<Rightarrow> sched_state" where
  "transfer victim d chunk st =
     upd_dom victim (\<lambda>x. x\<lparr>balside := RebalanceSide_SHRINKING\<rparr>)
       (upd_dom d (\<lambda>x. x\<lparr>memsize := memsize x + chunk\<rparr>)
          (upd_dom victim (\<lambda>x. x\<lparr>memsize := memsize x - chunk\<rparr>) st))"

definition rebalance_victim ::
  "int \<Rightarrow> int \<Rightarrow> eval_force_context \<Rightarrow> int list \<Rightarrow> sched_state
     \<Rightarrow> (int list \<times> sched_state, int \<times> int list \<times> sched_state) loop_step"
where
  "rebalance_victim d need rctx vec_shrink st =
     (if need > 0 \<and> vec_shrink \<noteq> [] then
        let victim = hd vec_shrink; vi = dominfo st victim in
        if balside vi = RebalanceSide_EXPANDING \<or> memsize vi \<le> memsize_decr vi
        then Continue (need, tl vec_shrink, st)
        else if expand_force (dominfo st d) \<le> resist_force vi then Break (vec_shrink, st)
        else
          let chunk = min (memsize vi - shave_floor vi) need;
              c_size = size_resist_category vi (memsize vi);
              st3 = transfer victim d chunk st;
              vi3 = dominfo st3 victim
          in if memsize vi3 \<le> memsize_decr vi3
             then Continue (need - chunk, tl vec_shrink, st3)
             else if c_size \<noteq> size_resist_category vi3 (memsize vi3) then
               let st4 = upd_dom victim (eval_resist_force rctx) st3
               in Continue (need - chunk, insert_into_vec_shrink st4 (tl vec_shrink) victim, st4)
             else Continue (need - chunk, vec_shrink, st3)
      else Break (vec_shrink, st))"

lemma length_insert_at [simp]: "length (insert_at vec k x) = Suc (length vec)"
  by (simp add: insert_at_def)

lemma length_insert_into_vec_shrink [simp]:
  "length (insert_into_vec_shrink st vec d) = Suc (length vec)"
  by (simp add: insert_into_vec_shrink_def)

lemma shave_floor_less: "memsize_decr vi < memsize vi \<Longrightarrow> shave_floor vi < memsize vi"
  by (simp add: shave_floor_def)

lemma shave_floor_ge: "memsize_decr vi \<le> shave_floor vi"
  by (simp add: shave_floor_def)

lemma rebalance_victim_cases:
  assumes "rebalance_victim d need rctx vs st = Continue (need', vs', st')"
  shows "0 < need \<and> vs \<noteq> [] \<and>
     ((need' = need \<and> vs' = tl vs \<and> st' = st
         \<and> (balside (dominfo st (hd vs)) = RebalanceSide_EXPANDING
              \<or> memsize (dominfo st (hd vs)) \<le> memsize_decr (dominfo st (hd vs))))
      \<or> (\<exists>chunk. chunk = min (memsize (dominfo st (hd vs)) - shave_floor (dominfo st (hd vs))) need
            \<and> balside (dominfo st (hd vs)) \<noteq> RebalanceSide_EXPANDING
            \<and> memsize_decr (dominfo st (hd vs)) < memsize (dominfo st (hd vs))
            \<and> resist_force (dominfo st (hd vs)) < expand_force (dominfo st d)
            \<and> need' = need - chunk
            \<and> (vs' = tl vs \<and> st' = transfer (hd vs) d chunk st
                \<or> vs' = vs \<and> st' = transfer (hd vs) d chunk st
                \<or> st' = upd_dom (hd vs) (eval_resist_force rctx) (transfer (hd vs) d chunk st)
                  \<and> vs' = insert_into_vec_shrink
                            (upd_dom (hd vs) (eval_resist_force rctx) (transfer (hd vs) d chunk st))
                            (tl vs) (hd vs))))"
proof (cases "need > 0 \<and> vs \<noteq> []")
  case False
  with assms show ?thesis by (simp add: rebalance_victim_def)
next
  case pre: True
  show ?thesis
  proof (cases "balside (dominfo st (hd vs)) = RebalanceSide_EXPANDING
              \<or> memsize (dominfo st (hd vs)) \<le> memsize_decr (dominfo st (hd vs))")
    case True
    with assms pre show ?thesis by (simp add: rebalance_victim_def Let_def)
  next
    case ne: False
    show ?thesis
    proof (cases "expand_force (dominfo st d) \<le> resist_force (dominfo st (hd vs))")
      case True
      with assms pre ne show ?thesis by (simp add: rebalance_victim_def Let_def)
    next
      case False
      with assms pre ne show ?thesis
        by (auto simp add: rebalance_victim_def Let_def split: if_splits)
    qed
  qed
qed

lemma rebalance_victim_decreases:
  assumes "rebalance_victim d need rctx vs st = Continue (need', vs', st')"
  shows "0 < need \<and> 0 \<le> need' \<and> (need' < need \<and> length vs' \<le> length vs \<or> need' = need \<and> length vs' < length vs)"
proof -
  from rebalance_victim_cases[OF assms] have pre: "0 < need" "vs \<noteq> []" by simp_all
  from rebalance_victim_cases[OF assms] have
    "(need' = need \<and> vs' = tl vs)
     \<or> (\<exists>chunk. chunk = min (memsize (dominfo st (hd vs)) - shave_floor (dominfo st (hd vs))) need
        \<and> memsize_decr (dominfo st (hd vs)) < memsize (dominfo st (hd vs))
        \<and> need' = need - chunk \<and> length vs' \<le> length vs)"
    using pre by (elim conjE disjE exE) (simp_all add: Suc_leI)
  then show ?thesis
  proof (elim disjE exE conjE)
    assume "need' = need" "vs' = tl vs"
    with pre show ?thesis by simp
  next
    fix chunk
    assume xfer: "chunk = min (memsize (dominfo st (hd vs)) - shave_floor (dominfo st (hd vs))) need"
        "memsize_decr (dominfo st (hd vs)) < memsize (dominfo st (hd vs))"
        "need' = need - chunk" "length vs' \<le> length vs"
    from shave_floor_less[OF xfer(2)] xfer(1) pre have "0 < chunk" "chunk \<le> need" by simp_all
    with xfer pre show ?thesis by simp
  qed
qed

function rebalance_domains ::
  "int \<Rightarrow> int \<Rightarrow> eval_force_context \<Rightarrow> int list \<Rightarrow> sched_state \<Rightarrow> int list \<times> sched_state"
where
  "rebalance_domains d need rctx vec_shrink st =
     (case rebalance_victim d need rctx vec_shrink st of
        Break r \<Rightarrow> r
      | Continue (need', vec_shrink', st') \<Rightarrow> rebalance_domains d need' rctx vec_shrink' st')"
  by pat_completeness auto
termination
proof (relation "measures [\<lambda>(d, need, rctx, vec_shrink, st). nat need,
                             \<lambda>(d, need, rctx, vec_shrink, st). length vec_shrink]", goal_cases)
  case 1
  show ?case by simp
next
  case (2 d need rctx vec_shrink st x2 need' y vec_shrink' st')
  then have "rebalance_victim d need rctx vec_shrink st = Continue (need', vec_shrink', st')" by simp
  from rebalance_victim_decreases[OF this] show ?case by auto
qed

declare rebalance_domains.simps [simp del]


lemma rebalance_victim_Break:
  "rebalance_victim d need rctx vs st = Break r \<Longrightarrow> r = (vs, st)"
  by (auto simp: rebalance_victim_def Let_def split: if_splits)

lemma rebalance_domains_rel:
  assumes step: "\<And>need vs st need' vs' st'.
             rebalance_victim d need rctx vs st = Continue (need', vs', st')
             \<Longrightarrow> R (need, vs, st) (need', vs', st')"
    and rrefl: "\<And>c. R c c"
    and rtrans: "\<And>a b c. R a b \<Longrightarrow> R b c \<Longrightarrow> R a c"
  shows "\<exists>need'. R (need, vs, st) (need', rebalance_domains d need rctx vs st)"
proof -
  have "d' = d \<Longrightarrow> rctx' = rctx
        \<Longrightarrow> \<exists>need'. R (need, vs, st) (need', rebalance_domains d' need rctx' vs st)"
    for d' rctx'
  proof (induction d' need rctx' vs st rule: rebalance_domains.induct)
    case (1 d' need rctx' vs st)
    note [simp] = \<open>d' = d\<close> \<open>rctx' = rctx\<close>
    show ?case
    proof (cases "rebalance_victim d need rctx vs st")
      case (Break r)
      then have "rebalance_domains d need rctx vs st = (vs, st)"
        using rebalance_victim_Break[OF Break] by (simp add: rebalance_domains.simps)
      then show ?thesis using rrefl by auto
    next
      case (Continue c)
      obtain need' vs' st' where c: "c = (need', vs', st')" by (cases c) auto
      have cont: "rebalance_victim d' need rctx' vs st = Continue (need', vs', st')"
        using Continue c by simp
      from "1.IH"[OF cont refl refl "1.prems"] obtain need''
        where ih: "R (need', vs', st') (need'', rebalance_domains d need' rctx vs' st')"
        by auto
      have "rebalance_domains d need rctx vs st = rebalance_domains d need' rctx vs' st'"
        using Continue c by (simp add: rebalance_domains.simps)
      with rtrans[OF step[OF Continue[unfolded c]] ih] show ?thesis by auto
    qed
  qed
  then show ?thesis by simp
qed


lemma eval_resist_force_eq:
  "eval_resist_force ctx di = di\<lparr>resist_force := resist_force (eval_resist_force ctx di)\<rparr>"
  by (simp add: eval_resist_force_def Let_def split: category_t.split)

lemma eval_expand_force_eq:
  "eval_expand_force ctx di = di\<lparr>expand_force := expand_force (eval_expand_force ctx di)\<rparr>"
  by (simp add: eval_expand_force_def Let_def split: category_t.split)

definition same_globals :: "sched_state \<Rightarrow> sched_state \<Rightarrow> bool" where
  "same_globals st st' =
     (sched_tick st' = sched_tick st \<and> config st' = config st
      \<and> memquant_kbs st' = memquant_kbs st
      \<and> memsched_pause_level st' = memsched_pause_level st \<and> managed st' = managed st)"

lemma same_globals_refl [simp]: "same_globals st st"
  by (simp add: same_globals_def)

lemma same_globals_trans: "same_globals a b \<Longrightarrow> same_globals b c \<Longrightarrow> same_globals a c"
  by (simp add: same_globals_def)

lemma same_globals_upd_dom [simp]: "same_globals st (upd_dom d f st)"
  by (simp add: same_globals_def)

lemma transfer_globals [simp]:
  "same_globals st (transfer v d c st)" "host_free (transfer v d c st) = host_free st"
  by (simp_all add: transfer_def same_globals_def)

lemma transfer_other: "x \<noteq> v \<Longrightarrow> x \<noteq> d \<Longrightarrow> dominfo (transfer v d c st) x = dominfo st x"
  by (simp add: transfer_def)

lemma transfer_victim:
  "dominfo (transfer v d c st) v
     = (dominfo st v)\<lparr>memsize := (if v = d then memsize (dominfo st v) else memsize (dominfo st v) - c),
                       balside := RebalanceSide_SHRINKING\<rparr>"
  by (simp add: transfer_def)

lemma transfer_dom:
  "v \<noteq> d \<Longrightarrow> dominfo (transfer v d c st) d = (dominfo st d)\<lparr>memsize := memsize (dominfo st d) + c\<rparr>"
  by (simp add: transfer_def)

definition rb_rel ::
  "int \<Rightarrow> int \<times> int list \<times> sched_state \<Rightarrow> int \<times> int list \<times> sched_state \<Rightarrow> bool"
where
  "rb_rel d a b =
     (case a of (need, vs, st) \<Rightarrow> case b of (need', vs', st') \<Rightarrow>
        same_globals st st' \<and> host_free st' = host_free st
        \<and> set vs' \<subseteq> set vs \<and> need' \<le> need \<and> (0 \<le> need \<longrightarrow> 0 \<le> need')
        \<and> (\<forall>x. x \<noteq> d \<and> x \<notin> set vs \<longrightarrow> dominfo st' x = dominfo st x)
        \<and> (\<forall>x. x \<noteq> d \<longrightarrow> dominfo st' x = dominfo st x
                       \<or> balside (dominfo st' x) = RebalanceSide_SHRINKING)
        \<and> (\<forall>x. memsize_decr (dominfo st' x) = memsize_decr (dominfo st x)
                \<and> min (memsize (dominfo st x)) (memsize_decr (dominfo st x))
                     \<le> memsize (dominfo st' x))
        \<and> (balside (dominfo st d) = RebalanceSide_EXPANDING
             \<longrightarrow> dominfo st' d
                   = (dominfo st d)\<lparr>memsize := memsize (dominfo st d) + (need - need')\<rparr>))"

lemma rb_rel_refl: "rb_rel d c c"
  by (cases c) (simp add: rb_rel_def)

lemma rb_rel_trans:
  assumes "rb_rel d a b" "rb_rel d b c"
  shows "rb_rel d a c"
proof -
  obtain n1 v1 s1 where a: "a = (n1, v1, s1)" by (cases a) auto
  obtain n2 v2 s2 where b: "b = (n2, v2, s2)" by (cases b) auto
  obtain n3 v3 s3 where c: "c = (n3, v3, s3)" by (cases c) auto
  note ab = assms(1)[unfolded a b rb_rel_def prod.case]
  note bc = assms(2)[unfolded b c rb_rel_def prod.case]
  have ab_g: "same_globals s1 s2" "host_free s2 = host_free s1" "set v2 \<subseteq> set v1"
       "n2 \<le> n1" "0 \<le> n1 \<longrightarrow> 0 \<le> n2"
    and ab_o: "\<forall>x. x \<noteq> d \<and> x \<notin> set v1 \<longrightarrow> dominfo s2 x = dominfo s1 x"
    and ab_sh: "\<forall>x. x \<noteq> d \<longrightarrow> dominfo s2 x = dominfo s1 x
                       \<or> balside (dominfo s2 x) = RebalanceSide_SHRINKING"
    using ab by auto
  have bc_g: "same_globals s2 s3" "host_free s3 = host_free s2" "set v3 \<subseteq> set v2"
       "n3 \<le> n2" "0 \<le> n2 \<longrightarrow> 0 \<le> n3"
    and bc_o: "\<forall>x. x \<noteq> d \<and> x \<notin> set v2 \<longrightarrow> dominfo s3 x = dominfo s2 x"
    and bc_sh: "\<forall>x. x \<noteq> d \<longrightarrow> dominfo s3 x = dominfo s2 x
                       \<or> balside (dominfo s3 x) = RebalanceSide_SHRINKING"
    using bc by auto
  have g: "same_globals s1 s3" "host_free s3 = host_free s1" "set v3 \<subseteq> set v1"
       "n3 \<le> n1" "0 \<le> n1 \<longrightarrow> 0 \<le> n3"
    using ab_g bc_g same_globals_trans by auto
  have o: "\<forall>x. x \<noteq> d \<and> x \<notin> set v1 \<longrightarrow> dominfo s3 x = dominfo s1 x"
  proof (intro allI impI)
    fix x assume x: "x \<noteq> d \<and> x \<notin> set v1"
    then have "x \<notin> set v2" using ab_g(3) by auto
    then show "dominfo s3 x = dominfo s1 x" using x ab_o bc_o by simp
  qed
  have sh: "\<forall>x. x \<noteq> d \<longrightarrow> dominfo s3 x = dominfo s1 x
                       \<or> balside (dominfo s3 x) = RebalanceSide_SHRINKING"
  proof (intro allI impI)
    fix x assume x: "x \<noteq> d"
    from ab_sh x have 1: "dominfo s2 x = dominfo s1 x \<or> balside (dominfo s2 x) = RebalanceSide_SHRINKING"
      by simp
    from bc_sh x have 2: "dominfo s3 x = dominfo s2 x \<or> balside (dominfo s3 x) = RebalanceSide_SHRINKING"
      by simp
    from 1 2 show "dominfo s3 x = dominfo s1 x \<or> balside (dominfo s3 x) = RebalanceSide_SHRINKING"
      by (elim disjE) simp_all
  qed
  have md: "\<forall>x. memsize_decr (dominfo s3 x) = memsize_decr (dominfo s1 x)
                \<and> min (memsize (dominfo s1 x)) (memsize_decr (dominfo s1 x))
                     \<le> memsize (dominfo s3 x)"
  proof (intro allI conjI)
    fix x
    show "memsize_decr (dominfo s3 x) = memsize_decr (dominfo s1 x)" using ab bc by simp
    have "min (memsize (dominfo s1 x)) (memsize_decr (dominfo s1 x)) \<le> memsize (dominfo s2 x)"
      using ab by simp
    moreover have "min (memsize (dominfo s2 x)) (memsize_decr (dominfo s1 x)) \<le> memsize (dominfo s3 x)"
      using ab bc by simp
    ultimately show "min (memsize (dominfo s1 x)) (memsize_decr (dominfo s1 x))
                     \<le> memsize (dominfo s3 x)" by linarith
  qed
  have ex: "balside (dominfo s1 d) = RebalanceSide_EXPANDING
             \<longrightarrow> dominfo s3 d = (dominfo s1 d)\<lparr>memsize := memsize (dominfo s1 d) + (n1 - n3)\<rparr>"
  proof
    assume e: "balside (dominfo s1 d) = RebalanceSide_EXPANDING"
    with ab have 1: "dominfo s2 d = (dominfo s1 d)\<lparr>memsize := memsize (dominfo s1 d) + (n1 - n2)\<rparr>"
      by simp
    then have "balside (dominfo s2 d) = RebalanceSide_EXPANDING" using e by simp
    with bc have "dominfo s3 d = (dominfo s2 d)\<lparr>memsize := memsize (dominfo s2 d) + (n2 - n3)\<rparr>"
      by simp
    with 1 show "dominfo s3 d = (dominfo s1 d)\<lparr>memsize := memsize (dominfo s1 d) + (n1 - n3)\<rparr>"
      by simp
  qed
  show ?thesis unfolding a c rb_rel_def prod.case
    by (intro conjI) (fact g o sh md ex)+
qed

lemma set_insert_into_vec_shrink [simp]:
  "set (insert_into_vec_shrink st vec d) = insert d (set vec)"
proof -
  have "set (take k vec) \<union> set (drop k vec) = set vec" for k
    by (metis append_take_drop_id set_append)
  then show ?thesis
    by (auto simp: insert_into_vec_shrink_def insert_at_def)
qed

lemma rebalance_victim_subset:
  assumes "rebalance_victim d need rctx vs st = Continue (need', vs', st')"
  shows "set vs' \<subseteq> set vs"
proof -
  note c = rebalance_victim_cases[OF assms]
  then have pre: "vs \<noteq> []" by simp
  then have t: "set (tl vs) \<subseteq> set vs" "hd vs \<in> set vs"
    by (auto dest: list.set_sel(2))
  from c have "vs' = tl vs \<or> vs' = vs
     \<or> (\<exists>s. vs' = insert_into_vec_shrink s (tl vs) (hd vs))"
    by blast
  then show ?thesis using t by auto
qed

lemma rb_rel_step:
  assumes "rebalance_victim d need rctx vs st = Continue (need', vs', st')"
  shows "rb_rel d (need, vs, st) (need', vs', st')"
proof -
  note c = rebalance_victim_cases[OF assms]
  then have pre: "0 < need" "vs \<noteq> []" by simp_all
  define v where "v = hd vs"
  have vin: "v \<in> set vs" using pre by (simp add: v_def)
  note sub = rebalance_victim_subset[OF assms]
  from c have "(need' = need \<and> st' = st)
    \<or> (\<exists>chunk. chunk = min (memsize (dominfo st v) - shave_floor (dominfo st v)) need
        \<and> balside (dominfo st v) \<noteq> RebalanceSide_EXPANDING
        \<and> memsize_decr (dominfo st v) < memsize (dominfo st v)
        \<and> need' = need - chunk
        \<and> (st' = transfer v d chunk st
            \<or> st' = upd_dom v (eval_resist_force rctx) (transfer v d chunk st)))"
    unfolding v_def[symmetric] by blast
  then have D: "(need' = need \<and> st' = st)
    \<or> (\<exists>chunk. min (memsize (dominfo st v) - shave_floor (dominfo st v)) need = chunk
        \<and> balside (dominfo st v) \<noteq> RebalanceSide_EXPANDING
        \<and> memsize_decr (dominfo st v) < memsize (dominfo st v)
        \<and> need' = need - chunk
        \<and> (st' = transfer v d chunk st
            \<or> st' = upd_dom v (eval_resist_force rctx) (transfer v d chunk st)))" 
    by simp
  show ?thesis
  proof (cases "need' = need \<and> st' = st")
    case True
    then show ?thesis using sub by (simp add: rb_rel_def)
  next
    case False
    with D obtain chunk where xfer: "chunk = min (memsize (dominfo st v) - shave_floor (dominfo st v)) need"
        "balside (dominfo st v) \<noteq> RebalanceSide_EXPANDING"
        "memsize_decr (dominfo st v) < memsize (dominfo st v)"
        "need' = need - chunk"
        "st' = transfer v d chunk st \<or> st' = upd_dom v (eval_resist_force rctx) (transfer v d chunk st)"
      by blast
    have ck: "0 < chunk" "chunk \<le> need" "chunk \<le> memsize (dominfo st v) - shave_floor (dominfo st v)"
      using shave_floor_less[OF xfer(3)] xfer(1) pre by simp_all
    have fl: "memsize_decr (dominfo st v) \<le> memsize (dominfo st v) - chunk"
      using ck(3) shave_floor_ge[of "dominfo st v"] by linarith
    have di_v: "dominfo st' v = (dominfo (transfer v d chunk st) v)
                                   \<lparr>resist_force := resist_force (dominfo st' v)\<rparr>"
      using xfer(5)
    proof
      assume "st' = transfer v d chunk st" then show ?thesis by simp
    next
      assume "st' = upd_dom v (eval_resist_force rctx) (transfer v d chunk st)"
      then show ?thesis using eval_resist_force_eq[of rctx "dominfo (transfer v d chunk st) v"]
        by simp
    qed
    have di_o: "x \<noteq> v \<Longrightarrow> dominfo st' x = dominfo (transfer v d chunk st) x" for x
      using xfer(5) by auto
    have gl: "same_globals st st'" "host_free st' = host_free st"
      using xfer(5) by (auto simp: same_globals_def transfer_def)
    show ?thesis
      unfolding rb_rel_def prod.case
    proof (intro conjI allI impI)
      show "same_globals st st'" "host_free st' = host_free st" by (rule gl)+
      show "set vs' \<subseteq> set vs" by (rule sub)
      show "need' \<le> need" using xfer(4) ck by simp
      show "0 \<le> need'" using xfer(4) ck by simp
    next
      fix x assume "x \<noteq> d \<and> x \<notin> set vs"
      then have "x \<noteq> v" "x \<noteq> d" using vin by auto
      then show "dominfo st' x = dominfo st x"
        by (simp add: di_o transfer_other)
    next
      fix x assume xd: "x \<noteq> d"
      show "dominfo st' x = dominfo st x \<or> balside (dominfo st' x) = RebalanceSide_SHRINKING"
      proof (cases "x = v")
        case True
        have "balside (dominfo st' v) = RebalanceSide_SHRINKING"
          by (subst di_v) (simp add: transfer_victim)
        then show ?thesis using True by simp
      next
        case False
        then show ?thesis using xd by (simp add: di_o transfer_other)
      qed
    next
      fix x
      show "memsize_decr (dominfo st' x) = memsize_decr (dominfo st x)"
      proof (cases "x = v")
        case True
        have "memsize_decr (dominfo st' v) = memsize_decr (dominfo st v)"
          by (subst di_v) (simp add: transfer_victim)
        then show ?thesis using True by simp
      next
        case False
        then show ?thesis
          by (cases "x = d") (simp_all add: di_o transfer_other transfer_dom)
      qed
    next
      fix x
      show "min (memsize (dominfo st x)) (memsize_decr (dominfo st x)) \<le> memsize (dominfo st' x)"
      proof (cases "x = v")
        case True
        have "memsize (dominfo st' v) = (if v = d then memsize (dominfo st v) else memsize (dominfo st v) - chunk)"
          by (subst di_v) (simp add: transfer_victim)
        then show ?thesis using True fl by auto
      next
        case False
        then show ?thesis using ck(1)
          by (cases "x = d") (simp_all add: di_o transfer_other transfer_dom)
      qed
    next
      assume "balside (dominfo st d) = RebalanceSide_EXPANDING"
      with xfer(2) have vd: "v \<noteq> d" by auto
      then have "dominfo st' d = dominfo (transfer v d chunk st) d" using di_o by simp
      then show "dominfo st' d = (dominfo st d)\<lparr>memsize := memsize (dominfo st d) + (need - need')\<rparr>"
        using xfer(4) vd by (simp add: transfer_dom)
    qed
  qed
qed

lemma rebalance_domains_rb_rel:
  "\<exists>need'. rb_rel d (need, vs, st) (need', rebalance_domains d need rctx vs st)"
  by (rule rebalance_domains_rel[where R = "rb_rel d"]) (auto intro: rb_rel_step rb_rel_refl rb_rel_trans)

definition expand_target :: "domain_info \<Rightarrow> int" where
  "expand_target di =
     (if memsize di < dmem_min di then min (dmem_min di) (memsize_incr di)
      else if memsize di < dmem_quota di then min (dmem_quota di) (memsize_incr di)
      else memsize_incr di)"

definition rebalance_next ::
  "eval_force_context \<Rightarrow> int \<Rightarrow> category_t \<Rightarrow> int \<Rightarrow> int list \<Rightarrow> int list \<Rightarrow> sched_state
     \<Rightarrow> (fatal + sched_state, int list \<times> int list \<times> sched_state) loop_step"
where
  "rebalance_next ectx d c_size m vec_expand vec_shrink st =
     (let di = dominfo st d in
      if memsize di \<ge> memsize_incr di then Continue (tl vec_expand, vec_shrink, st)
      else if size_expand_category di (memsize di) \<noteq> c_size then
        let st' = upd_dom d (eval_expand_force ectx) st
        in Continue (insert_into_vec_expand st' (tl vec_expand) d, vec_shrink, st')
      else if memsize di = m
        then Break (Inl (Fatal ''bug: sched_rebalance: size category did not change''))
      else Continue (vec_expand, vec_shrink, st))"

definition rebalance_step ::
  "eval_force_context \<Rightarrow> eval_force_context \<Rightarrow> int list \<Rightarrow> int list \<Rightarrow> sched_state
     \<Rightarrow> (fatal + sched_state, int list \<times> int list \<times> sched_state) loop_step"
where
  "rebalance_step ectx rctx vec_expand vec_shrink st =
     (case vec_expand of
        [] \<Rightarrow> Break (Inr st)
      | d # rest \<Rightarrow>
          if balside (dominfo st d) = RebalanceSide_SHRINKING
          then Continue (rest, vec_shrink, st)
          else
            let st1 = upd_dom d (\<lambda>x. x\<lparr>balside := RebalanceSide_EXPANDING\<rparr>) st;
                di = dominfo st1 d;
                m = expand_target di;
                need = m - memsize di;
                c_size = size_expand_category di (memsize di)
            in case expand_into_freemem d need st1 of
                 Inl e \<Rightarrow> Break (Inl e)
               | Inr (True, st2) \<Rightarrow> rebalance_next ectx d c_size m vec_expand vec_shrink st2
               | Inr (False, st2) \<Rightarrow>
                   (case rebalance_domains d need rctx vec_shrink st2 of
                      (vec_shrink', st3) \<Rightarrow>
                        if memsize (dominfo st3 d) = memsize (dominfo st2 d) then Break (Inr st3)
                        else rebalance_next ectx d c_size (memsize (dominfo st2 d))
                               vec_expand vec_shrink' st3))"

text \<open>Termination measure of the main loop: what the expansion candidates that are not
  being shrunk may still gain in this tick.\<close>

definition room :: "sched_state \<Rightarrow> int \<Rightarrow> nat" where
  "room st x =
     (if balside (dominfo st x) = RebalanceSide_SHRINKING then 0
      else nat (memsize_incr (dominfo st x) - memsize (dominfo st x)))"

lemma sum_list_room_less:
  assumes "\<forall>x \<in> set xs. f x \<le> (g x :: nat)" "d \<in> set xs" "f d < g d"
  shows "sum_list (map f xs) < sum_list (map g xs)"
  using assms
proof (induction xs)
  case Nil
  then show ?case by simp
next
  case (Cons a xs)
  have le: "sum_list (map f xs) \<le> sum_list (map g xs)"
    using Cons.prems(1) by (intro sum_list_mono) simp
  show ?case
  proof (cases "a = d")
    case True
    then show ?thesis using le Cons.prems by simp
  next
    case False
    then have "sum_list (map f xs) < sum_list (map g xs)" using Cons by simp
    moreover have "f a \<le> g a" using Cons.prems by simp
    ultimately show ?thesis by simp
  qed
qed

lemma sum_list_insert_at:
  "sum_list (map f (insert_at xs k x)) = f x + sum_list (map f (xs :: 'a list) :: nat list)"
proof -
  have "sum_list (map f (take k xs)) + sum_list (map f (drop k xs)) = sum_list (map f xs)"
    by (metis append_take_drop_id map_append sum_list_append)
  then show ?thesis by (simp add: insert_at_def)
qed


lemma rounddown_nonneg_le:
  assumes "0 \<le> n"
  shows "0 \<le> rounddown n r \<and> rounddown n r \<le> n"
proof (cases "r = 0")
  case True
  then show ?thesis using assms by (simp add: rounddown_def)
next
  case False
  then have r: "0 < int r" by simp
  have 1: "n = rounddown n r + n mod int r" by (simp add: rounddown_def)
  have 2: "0 \<le> n mod int r" using r by simp
  have "0 \<le> n div int r" using assms r by (simp add: pos_imp_zdiv_nonneg_iff)
  then have 3: "0 \<le> rounddown n r" using r by (simp add: rounddown_def)
  from 1 2 3 show ?thesis by linarith
qed

lemma free_allocate_cases:
  assumes "free_allocate f need st = Inr (chunk, st')"
  shows "0 \<le> need \<and> 0 \<le> chunk \<and> chunk \<le> need
         \<and> st' = st\<lparr>host_free := host_free st - chunk\<rparr>"
proof -
  from assms have n: "0 \<le> need" by (auto simp: free_allocate_def split: if_splits)
  define reserve where "reserve = (if f > resist_force_free_soft
                       then cfg_host_reserved_hard (config st)
                       else cfg_host_reserved_soft (config st))"
  show ?thesis
  proof (cases "host_free st - reserve \<le> 0")
    case True
    with assms n show ?thesis by (simp add: free_allocate_def reserve_def Let_def)
  next
    case False
    with assms n have c: "chunk = rounddown (min (host_free st - reserve) need) (memquant_kbs st)"
      and s: "st' = st\<lparr>host_free := host_free st - chunk\<rparr>"
      by (auto simp add: free_allocate_def reserve_def Let_def)
    have "0 \<le> min (host_free st - reserve) need" using False n by simp
    from rounddown_nonneg_le[OF this, of "memquant_kbs st"] c have "0 \<le> chunk" "chunk \<le> need"
      by simp_all
    with n s show ?thesis by simp
  qed
qed

lemma expand_into_freemem_cases:
  assumes "expand_into_freemem d need st = Inr (ok, st')"
  shows "\<exists>chunk. 0 \<le> need \<and> 0 \<le> chunk \<and> chunk \<le> need \<and> ok = (chunk \<noteq> 0)
         \<and> st' = upd_dom d (\<lambda>di. di\<lparr>memsize := memsize di + chunk\<rparr>)
                    (st\<lparr>host_free := host_free st - chunk\<rparr>)"
proof (cases "free_allocate (expand_force (dominfo st d)) need st")
  case (Inl e)
  with assms show ?thesis by (simp add: expand_into_freemem_def)
next
  case (Inr p)
  obtain chunk s1 where p: "p = (chunk, s1)" by (cases p) auto
  note fa = free_allocate_cases[OF Inr[unfolded p]]
  show ?thesis
  proof (cases "chunk = 0")
    case True
    with assms Inr p fa have "ok = False" "st' = st\<lparr>host_free := host_free st - chunk\<rparr>"
      by (simp_all add: expand_into_freemem_def)
    then show ?thesis using fa True by (intro exI[of _ 0]) (simp add: upd_dom_def)
  next
    case False
    with assms Inr p fa have "ok = True"
      "st' = upd_dom d (\<lambda>di. di\<lparr>memsize := memsize di + chunk\<rparr>) (st\<lparr>host_free := host_free st - chunk\<rparr>)"
      by (simp_all add: expand_into_freemem_def)
    then show ?thesis using fa False by (intro exI[of _ chunk]) simp
  qed
qed

lemma expand_into_freemem_fatal:
  "expand_into_freemem d need st = Inl e \<Longrightarrow> need < 0"
  by (auto simp: expand_into_freemem_def free_allocate_def Let_def split: if_splits sum.splits prod.splits)

lemma expand_target_le: "expand_target di \<le> memsize_incr di"
  by (simp add: expand_target_def)


definition grow_rel :: "int \<Rightarrow> int list \<Rightarrow> sched_state \<Rightarrow> int \<Rightarrow> int list \<Rightarrow> sched_state \<Rightarrow> bool" where
  "grow_rel d vs st k vsg sg =
     (same_globals st sg \<and> set vsg \<subseteq> set vs
      \<and> dominfo sg d = (dominfo st d)\<lparr>balside := RebalanceSide_EXPANDING,
                                          memsize := memsize (dominfo st d) + k\<rparr>
      \<and> (\<forall>x. x \<noteq> d \<longrightarrow> dominfo sg x = dominfo st x
                       \<or> balside (dominfo sg x) = RebalanceSide_SHRINKING)
      \<and> (\<forall>x. x \<noteq> d \<and> x \<notin> set vs \<longrightarrow> dominfo sg x = dominfo st x)
      \<and> (\<forall>x. memsize_decr (dominfo sg x) = memsize_decr (dominfo st x)
              \<and> min (memsize (dominfo st x)) (memsize_decr (dominfo st x))
                   \<le> memsize (dominfo sg x)))"

lemma expand_target_balside [simp]:
  "expand_target (di\<lparr>balside := b\<rparr>) = expand_target di"
  "size_expand_category (di\<lparr>balside := b\<rparr>) n = size_expand_category di n"
  by (simp_all add: expand_target_def size_expand_category_def)

lemma rebalance_step_grow:
  assumes ne: "balside (dominfo st d) \<noteq> RebalanceSide_SHRINKING"
  shows "(\<exists>e. rebalance_step ectx rctx (d # rest) vs st = Break (Inl e))
       \<or> (\<exists>k vsg sg m. 0 \<le> k \<and> k \<le> expand_target (dominfo st d) - memsize (dominfo st d)
            \<and> grow_rel d vs st k vsg sg
            \<and> (k = 0 \<and> rebalance_step ectx rctx (d # rest) vs st = Break (Inr sg)
               \<or> 0 < k \<and> rebalance_step ectx rctx (d # rest) vs st
                    = rebalance_next ectx d
                        (size_expand_category (dominfo st d) (memsize (dominfo st d))) m
                        (d # rest) vsg sg))"
proof -
  define st1 where "st1 = upd_dom d (\<lambda>x. x\<lparr>balside := RebalanceSide_EXPANDING\<rparr>) st"
  define need where "need = expand_target (dominfo st d) - memsize (dominfo st d)"
  define c_size where "c_size = size_expand_category (dominfo st d) (memsize (dominfo st d))"
  have step: "rebalance_step ectx rctx (d # rest) vs st =
     (case expand_into_freemem d need st1 of
                 Inl e \<Rightarrow> Break (Inl e)
               | Inr (True, st2) \<Rightarrow> rebalance_next ectx d c_size (expand_target (dominfo st d)) (d # rest) vs st2
               | Inr (False, st2) \<Rightarrow>
                   (case rebalance_domains d need rctx vs st2 of
                      (vec_shrink', st3) \<Rightarrow>
                        if memsize (dominfo st3 d) = memsize (dominfo st2 d) then Break (Inr st3)
                        else rebalance_next ectx d c_size (memsize (dominfo st2 d))
                               (d # rest) vec_shrink' st3))"
    using ne by (simp add: rebalance_step_def st1_def need_def c_size_def Let_def
        split: sum.split prod.split bool.split)
  have d1: "dominfo st1 d = (dominfo st d)\<lparr>balside := RebalanceSide_EXPANDING\<rparr>"
    and o1: "\<And>x. x \<noteq> d \<Longrightarrow> dominfo st1 x = dominfo st x"
    and g1: "same_globals st st1"
    by (simp_all add: st1_def)
  show ?thesis
  proof (cases "expand_into_freemem d need st1")
    case (Inl e)
    then show ?thesis using step by simp
  next
    case (Inr p)
    obtain ok st2 where p: "p = (ok, st2)" by (cases p) auto
    from expand_into_freemem_cases[OF Inr[unfolded p]] obtain chunk where
      ch: "0 \<le> need" "0 \<le> chunk" "chunk \<le> need" "ok = (chunk \<noteq> 0)"
      and st2: "st2 = upd_dom d (\<lambda>di. di\<lparr>memsize := memsize di + chunk\<rparr>)
                    (st1\<lparr>host_free := host_free st1 - chunk\<rparr>)"
      by blast
    have d2: "dominfo st2 d = (dominfo st d)\<lparr>balside := RebalanceSide_EXPANDING,
                                          memsize := memsize (dominfo st d) + chunk\<rparr>"
      and o2: "\<And>x. x \<noteq> d \<Longrightarrow> dominfo st2 x = dominfo st x"
      and g2: "same_globals st st2"
      using d1 o1 g1 by (simp_all add: st2 same_globals_def)
    show ?thesis
    proof (cases "chunk = 0")
      case False
      then have ok: "ok" "0 < chunk" using ch by simp_all
      have md2: "memsize_decr (dominfo st2 x) = memsize_decr (dominfo st x)
              \<and> min (memsize (dominfo st x)) (memsize_decr (dominfo st x))
                   \<le> memsize (dominfo st2 x)" for x
        using d2 o2[of x] ok by (cases "x = d") simp_all
      have "grow_rel d vs st chunk vs st2"
        unfolding grow_rel_def using d2 o2 g2 md2 by simp
      moreover have "rebalance_step ectx rctx (d # rest) vs st
          = rebalance_next ectx d c_size (expand_target (dominfo st d)) (d # rest) vs st2"
        using step Inr p ok by simp
      ultimately show ?thesis using ok ch unfolding need_def c_size_def by blast
    next
      case True
      then have ok: "\<not> ok" using ch by simp
      obtain vs' st3 where rd: "rebalance_domains d need rctx vs st2 = (vs', st3)"
        by (cases "rebalance_domains d need rctx vs st2") auto
      from rebalance_domains_rb_rel[of d need vs st2 rctx] rd obtain need'
        where rel: "rb_rel d (need, vs, st2) (need', vs', st3)" by auto
      note r = rel[unfolded rb_rel_def prod.case]
      define k where "k = need - need'"
      have k: "0 \<le> k" "k \<le> need" using r ch by (simp_all add: k_def)
      have e2: "balside (dominfo st2 d) = RebalanceSide_EXPANDING" using d2 by simp
      have d3: "dominfo st3 d = (dominfo st2 d)\<lparr>memsize := memsize (dominfo st2 d) + k\<rparr>"
        using r e2 by (simp add: k_def)
      then have d3': "dominfo st3 d = (dominfo st d)\<lparr>balside := RebalanceSide_EXPANDING,
                                          memsize := memsize (dominfo st d) + k\<rparr>"
        using d2 True by simp
      have gr: "grow_rel d vs st k vs' st3"
        unfolding grow_rel_def
      proof (intro conjI allI impI)
        show "same_globals st st3" using r g2 same_globals_trans by blast
        show "set vs' \<subseteq> set vs" using r by simp
        show "dominfo st3 d = (dominfo st d)\<lparr>balside := RebalanceSide_EXPANDING,
                                          memsize := memsize (dominfo st d) + k\<rparr>" by (rule d3')
      next
        fix x assume "x \<noteq> d"
        then show "dominfo st3 x = dominfo st x \<or> balside (dominfo st3 x) = RebalanceSide_SHRINKING"
          using r o2 by auto
      next
        fix x assume "x \<noteq> d \<and> x \<notin> set vs"
        then show "dominfo st3 x = dominfo st x" using r o2 by auto
      next
        fix x
        show "memsize_decr (dominfo st3 x) = memsize_decr (dominfo st x)"
          using r o2[of x] d2 by (cases "x = d") simp_all
      next
        fix x
        have "min (memsize (dominfo st2 x)) (memsize_decr (dominfo st2 x)) \<le> memsize (dominfo st3 x)"
          using r by simp
        then show "min (memsize (dominfo st x)) (memsize_decr (dominfo st x)) \<le> memsize (dominfo st3 x)"
          using o2[of x] d2 True by (cases "x = d") simp_all
      qed
      have meq: "memsize (dominfo st3 d) = memsize (dominfo st2 d) \<longleftrightarrow> k = 0"
        using d3 by simp
      have stp: "rebalance_step ectx rctx (d # rest) vs st =
         (if k = 0 then Break (Inr st3)
          else rebalance_next ectx d c_size (memsize (dominfo st2 d)) (d # rest) vs' st3)"
        using step Inr p ok rd meq by simp
      have "k = 0 \<and> rebalance_step ectx rctx (d # rest) vs st = Break (Inr st3)
               \<or> 0 < k \<and> rebalance_step ectx rctx (d # rest) vs st
                    = rebalance_next ectx d
                        (size_expand_category (dominfo st d) (memsize (dominfo st d)))
                        (memsize (dominfo st2 d)) (d # rest) vs' st3"
        using stp k(1) unfolding c_size_def by (cases "k = 0") simp_all
      with gr k show ?thesis unfolding need_def by blast
    qed
  qed
qed

lemma length_insert_into_vec_expand [simp]:
  "length (insert_into_vec_expand st vec d) = Suc (length vec)"
  by (simp add: insert_into_vec_expand_def)

lemma rebalance_next_cases:
  assumes "rebalance_next ectx d c m ve vs st = Continue (ve', vs', st')"
  shows "vs' = vs \<and>
     (ve' = tl ve \<and> st' = st
      \<or> ve' = ve \<and> st' = st
      \<or> st' = upd_dom d (eval_expand_force ectx) st
        \<and> ve' = insert_into_vec_expand (upd_dom d (eval_expand_force ectx) st) (tl ve) d)"
  using assms by (auto simp: rebalance_next_def Let_def split: if_splits)

lemma rebalance_next_Break:
  "rebalance_next ectx d c m ve vs st = Break r \<Longrightarrow> \<exists>e. r = Inl e"
  by (auto simp: rebalance_next_def Let_def split: if_splits)

lemma eval_expand_force_fields [simp]:
  "balside (eval_expand_force ectx di) = balside di"
  "memsize (eval_expand_force ectx di) = memsize di"
  "memsize_incr (eval_expand_force ectx di) = memsize_incr di"
  "memsize_decr (eval_expand_force ectx di) = memsize_decr di"
  "last_expand_tick (eval_expand_force ectx di) = last_expand_tick di"
  by (simp_all add: eval_expand_force_def Let_def split: category_t.split)

lemma eval_resist_force_fields [simp]:
  "balside (eval_resist_force rctx di) = balside di"
  "memsize (eval_resist_force rctx di) = memsize di"
  "memsize_incr (eval_resist_force rctx di) = memsize_incr di"
  "memsize_decr (eval_resist_force rctx di) = memsize_decr di"
  "last_expand_tick (eval_resist_force rctx di) = last_expand_tick di"
  "expand_force (eval_resist_force rctx di) = expand_force di"
  by (simp_all add: eval_resist_force_def Let_def split: category_t.split)

lemma room_expand_force [simp]:
  "room (upd_dom d (eval_expand_force ectx) st) = room st"
  by (rule ext) (simp add: room_def)

lemma rebalance_step_cases:
  assumes "rebalance_step ectx rctx ve vs st = Continue (ve', vs', st')"
  shows "ve \<noteq> [] \<and>
    (balside (dominfo st (hd ve)) = RebalanceSide_SHRINKING \<and> ve' = tl ve \<and> vs' = vs \<and> st' = st
     \<or> balside (dominfo st (hd ve)) \<noteq> RebalanceSide_SHRINKING
       \<and> (\<exists>k sg. 0 < k \<and> k \<le> expand_target (dominfo st (hd ve)) - memsize (dominfo st (hd ve))
            \<and> grow_rel (hd ve) vs st k vs' sg
            \<and> (ve' = tl ve \<and> st' = sg
                \<or> ve' = ve \<and> st' = sg
                \<or> st' = upd_dom (hd ve) (eval_expand_force ectx) sg
                  \<and> ve' = insert_into_vec_expand st' (tl ve) (hd ve))))"
proof (cases ve)
  case Nil
  with assms show ?thesis by (simp add: rebalance_step_def)
next
  case (Cons d rest)
  show ?thesis
  proof (cases "balside (dominfo st d) = RebalanceSide_SHRINKING")
    case True
    with assms Cons show ?thesis by (simp add: rebalance_step_def)
  next
    case False
    from rebalance_step_grow[OF False, of ectx rctx rest vs] assms[unfolded Cons]
    obtain k vsg sg m where g: "0 \<le> k"
        "k \<le> expand_target (dominfo st d) - memsize (dominfo st d)"
        "grow_rel d vs st k vsg sg" "0 < k"
        and nx: "rebalance_next ectx d
                        (size_expand_category (dominfo st d) (memsize (dominfo st d))) m
                        (d # rest) vsg sg = Continue (ve', vs', st')"
      by auto
    from rebalance_next_cases[OF nx] g False Cons show ?thesis by auto
  qed
qed

lemma rebalance_step_decreases:
  assumes "rebalance_step ectx rctx ve vs st = Continue (ve', vs', st')"
  shows "length ve' < length ve
         \<or> length ve' = length ve \<and> sum_list (map (room st') ve') < sum_list (map (room st) ve)"
proof -
  note c = rebalance_step_cases[OF assms]
  then have ne: "ve \<noteq> []" by simp
  define d where "d = hd ve"
  have ve: "ve = d # tl ve" using ne by (simp add: d_def)
  show ?thesis
  proof (cases "ve' = tl ve")
    case True
    then show ?thesis using ne by simp
  next
    case nt: False
    with c obtain k sg where g: "0 < k"
        "k \<le> expand_target (dominfo st d) - memsize (dominfo st d)"
        "grow_rel d vs st k vs' sg"
        "balside (dominfo st d) \<noteq> RebalanceSide_SHRINKING"
      and alt: "ve' = ve \<and> st' = sg
                \<or> st' = upd_dom d (eval_expand_force ectx) sg
                  \<and> ve' = insert_into_vec_expand st' (tl ve) d"
      unfolding d_def[symmetric] by blast
    note gr = g(3)[unfolded grow_rel_def]
    have rd: "room sg d < room st d"
    proof -
      have "k \<le> memsize_incr (dominfo st d) - memsize (dominfo st d)"
        using g(2) expand_target_le[of "dominfo st d"] by linarith
      moreover have "dominfo sg d = (dominfo st d)\<lparr>balside := RebalanceSide_EXPANDING,
                                          memsize := memsize (dominfo st d) + k\<rparr>"
        using gr by simp
      ultimately show ?thesis using g(1,4) by (simp add: room_def)
    qed
    have ro: "room sg x \<le> room st x" for x
    proof (cases "x = d")
      case True
      then show ?thesis using rd by simp
    next
      case False
      with gr have "dominfo sg x = dominfo st x \<or> balside (dominfo sg x) = RebalanceSide_SHRINKING"
        by simp
      then show ?thesis by (auto simp: room_def)
    qed
    have din: "d \<in> set ve" using ne by (simp add: d_def)
    have lt: "sum_list (map (room sg) ve) < sum_list (map (room st) ve)"
      using sum_list_room_less[of ve "room sg" "room st" d] din rd ro by simp
    from alt show ?thesis
    proof
      assume "ve' = ve \<and> st' = sg"
      then show ?thesis using lt by simp
    next
      assume a: "st' = upd_dom d (eval_expand_force ectx) sg
                  \<and> ve' = insert_into_vec_expand st' (tl ve) d"
      then have len: "length ve' = length ve" using ne by simp
      have "sum_list (map (room st') ve') = room st' d + sum_list (map (room st') (tl ve))"
        using a by (simp add: insert_into_vec_expand_def sum_list_insert_at)
      also have "\<dots> = sum_list (map (room st') ve)" by (subst (2) ve) simp
      also have "\<dots> = sum_list (map (room sg) ve)" using a by simp
      finally show ?thesis using lt len by simp
    qed
  qed
qed

function rebalance_loop ::
  "eval_force_context \<Rightarrow> eval_force_context \<Rightarrow> int list \<Rightarrow> int list \<Rightarrow> sched_state
     \<Rightarrow> fatal + sched_state"
where
  "rebalance_loop ectx rctx vec_expand vec_shrink st =
     (case rebalance_step ectx rctx vec_expand vec_shrink st of
        Break r \<Rightarrow> r
      | Continue (vec_expand', vec_shrink', st') \<Rightarrow>
          rebalance_loop ectx rctx vec_expand' vec_shrink' st')"
  by pat_completeness auto
termination
proof (relation "measures [\<lambda>(ectx, rctx, ve, vs, st). length ve,
                           \<lambda>(ectx, rctx, ve, vs, st). sum_list (map (room st) ve)]", goal_cases)
  case 1
  show ?case by simp
next
  case (2 ectx rctx ve vs st x2 ve' y vs' st')
  then have "rebalance_step ectx rctx ve vs st = Continue (ve', vs', st')" by simp
  from rebalance_step_decreases[OF this] show ?case by auto
qed

declare rebalance_loop.simps [simp del]

definition rebalance_candidate :: "sched_state \<Rightarrow> int \<Rightarrow> bool" where
  "rebalance_candidate st d =
     (valid_data (dominfo st d) \<and> runnable (dominfo st d) \<and> \<not> trimming_to_quota (dominfo st d))"

definition sched_rebalance :: "sched_state \<Rightarrow> fatal + sched_state" where
  "sched_rebalance st =
     (let vec = filter (rebalance_candidate st) (managed st) in
      if vec = [] then Inr st
      else
        case eval_expand_force_context st vec of
          Inl e \<Rightarrow> Inl e
        | Inr ectx \<Rightarrow>
            let rctx = eval_resist_force_context st vec;
                st1 = foldl (\<lambda>s d. upd_dom d (eval_resist_force rctx)
                                      (upd_dom d (eval_expand_force ectx) s)) st vec;
                st2 = foldl (\<lambda>s d. upd_dom d (\<lambda>di. di\<lparr>expand_force0 := expand_force di\<rparr>) s)
                        st1 vec;
                vec_expand = filter (\<lambda>d. \<not> (expand_force (dominfo st2 d) \<le> eps
                                    \<or> memsize (dominfo st2 d) \<ge> memsize_incr (dominfo st2 d))) vec;
                vec_shrink = filter (\<lambda>d. \<not> (memsize (dominfo st2 d) \<le> memsize_decr (dominfo st2 d)
                                    \<or> is_shrink_soft_protected st2 (dominfo st2 d))) vec
            in rebalance_loop ectx rctx
                 (sort_by (sortfunc_desc_by_expand_force st2) vec_expand)
                 (sort_by (sortfunc_asc_by_resist_force st2) vec_shrink) st2)"

lemma rebalance_step_Break:
  assumes "rebalance_step ectx rctx ve vs st = Break (Inr st')"
  shows "ve = [] \<and> st' = st \<or> (ve \<noteq> [] \<and> (\<exists>vsg. grow_rel (hd ve) vs st 0 vsg st'))"
proof (cases ve)
  case Nil
  with assms show ?thesis by (simp add: rebalance_step_def)
next
  case (Cons d rest)
  show ?thesis
  proof (cases "balside (dominfo st d) = RebalanceSide_SHRINKING")
    case True
    with assms Cons show ?thesis by (simp add: rebalance_step_def)
  next
    case False
    from rebalance_step_grow[OF False, of ectx rctx rest vs] assms[unfolded Cons]
    obtain k vsg sg m where g: "grow_rel d vs st k vsg sg"
      and alt: "k = 0 \<and> Break (Inr st') = Break (Inr sg)
               \<or> 0 < k \<and> Break (Inr st')
                    = rebalance_next ectx d
                        (size_expand_category (dominfo st d) (memsize (dominfo st d))) m
                        (d # rest) vsg sg"
      by auto
    from alt show ?thesis
    proof
      assume "k = 0 \<and> Break (Inr st') = Break (Inr sg)"
      with g Cons show ?thesis by auto
    next
      assume "0 < k \<and> Break (Inr st')
                    = rebalance_next ectx d
                        (size_expand_category (dominfo st d) (memsize (dominfo st d))) m
                        (d # rest) vsg sg"
      then have "rebalance_next ectx d
                        (size_expand_category (dominfo st d) (memsize (dominfo st d))) m
                        (d # rest) vsg sg = Break (Inr st')" by simp
      from rebalance_next_Break[OF this] show ?thesis by simp
    qed
  qed
qed

lemma rebalance_loop_rel:
  assumes cont: "\<And>ve vs st ve' vs' st'.
             rebalance_step ectx rctx ve vs st = Continue (ve', vs', st')
             \<Longrightarrow> R (vs, st) (vs', st')"
    and brk: "\<And>ve vs st st'.
             rebalance_step ectx rctx ve vs st = Break (Inr st') \<Longrightarrow> \<exists>vs'. R (vs, st) (vs', st')"
    and rtrans: "\<And>a b c. R a b \<Longrightarrow> R b c \<Longrightarrow> R a c"
    and res: "rebalance_loop ectx rctx ve vs st = Inr st'"
  shows "\<exists>vs'. R (vs, st) (vs', st')"
proof -
  have "ectx' = ectx \<Longrightarrow> rctx' = rctx \<Longrightarrow> rebalance_loop ectx' rctx' ve vs st = Inr st'
        \<Longrightarrow> \<exists>vs'. R (vs, st) (vs', st')"
    for ectx' rctx'
  proof (induction ectx' rctx' ve vs st rule: rebalance_loop.induct)
    case (1 ectx' rctx' ve vs st)
    note [simp] = \<open>ectx' = ectx\<close> \<open>rctx' = rctx\<close>
    show ?case
    proof (cases "rebalance_step ectx rctx ve vs st")
      case (Break r)
      then have "r = Inr st'" using "1.prems"(3) by (simp add: rebalance_loop.simps)
      with Break brk show ?thesis by simp
    next
      case (Continue c)
      obtain ve1 vs1 st1 where c: "c = (ve1, vs1, st1)" by (cases c) auto
      have cont': "rebalance_step ectx' rctx' ve vs st = Continue (ve1, vs1, st1)"
        using Continue c by simp
      have "rebalance_loop ectx rctx ve1 vs1 st1 = Inr st'"
        using "1.prems"(3) Continue c by (simp add: rebalance_loop.simps)
      with "1.IH"[OF cont' refl refl "1.prems"(1,2)] obtain vs' where "R (vs1, st1) (vs', st')"
        by auto
      with rtrans[OF cont[OF Continue[unfolded c]]] show ?thesis by blast
    qed
  qed
  with res show ?thesis by simp
qed

text \<open>What stage 4 keeps: descriptors outside the shrink vector never lose memory, and no
  descriptor is taken below the smaller of its size and its per-tick floor.\<close>

definition keeps :: "int list \<times> sched_state \<Rightarrow> int list \<times> sched_state \<Rightarrow> bool" where
  "keeps a b =
     (case a of (vs, st) \<Rightarrow> case b of (vs', st') \<Rightarrow>
        same_globals st st' \<and> set vs' \<subseteq> set vs
        \<and> (\<forall>x. x \<notin> set vs \<longrightarrow> memsize (dominfo st x) \<le> memsize (dominfo st' x))
        \<and> (\<forall>x. memsize_decr (dominfo st' x) = memsize_decr (dominfo st x)
                \<and> min (memsize (dominfo st x)) (memsize_decr (dominfo st x))
                     \<le> memsize (dominfo st' x)))"

lemma keeps_refl: "keeps a a"
  by (cases a) (simp add: keeps_def)

lemma keeps_trans:
  assumes "keeps a b" "keeps b c"
  shows "keeps a c"
proof -
  obtain v1 s1 where a: "a = (v1, s1)" by (cases a) auto
  obtain v2 s2 where b: "b = (v2, s2)" by (cases b) auto
  obtain v3 s3 where c: "c = (v3, s3)" by (cases c) auto
  note ab = assms(1)[unfolded a b keeps_def prod.case]
  note bc = assms(2)[unfolded b c keeps_def prod.case]
  have g: "same_globals s1 s3" "set v3 \<subseteq> set v1"
    using ab bc same_globals_trans by auto
  have o: "memsize (dominfo s1 x) \<le> memsize (dominfo s3 x)" if "x \<notin> set v1" for x
  proof -
    from that ab have "x \<notin> set v2" by auto
    with bc have "memsize (dominfo s2 x) \<le> memsize (dominfo s3 x)" by simp
    moreover from that ab have "memsize (dominfo s1 x) \<le> memsize (dominfo s2 x)" by simp
    ultimately show ?thesis by simp
  qed
  have md: "memsize_decr (dominfo s3 x) = memsize_decr (dominfo s1 x)
                \<and> min (memsize (dominfo s1 x)) (memsize_decr (dominfo s1 x))
                     \<le> memsize (dominfo s3 x)" for x
  proof -
    have 1: "min (memsize (dominfo s1 x)) (memsize_decr (dominfo s1 x)) \<le> memsize (dominfo s2 x)"
      using ab by simp
    have 2: "min (memsize (dominfo s2 x)) (memsize_decr (dominfo s1 x)) \<le> memsize (dominfo s3 x)"
      using ab bc by simp
    have 3: "memsize_decr (dominfo s3 x) = memsize_decr (dominfo s1 x)"
      using ab bc by simp
    from 1 2 3 show ?thesis by linarith
  qed
  show ?thesis unfolding a c keeps_def prod.case using g o md by simp
qed

lemma grow_rel_keeps:
  assumes "grow_rel d vs st k vsg sg" "0 \<le> k"
  shows "keeps (vs, st) (vsg, sg)"
proof -
  note g = assms(1)[unfolded grow_rel_def]
  have dd: "dominfo sg d = (dominfo st d)\<lparr>balside := RebalanceSide_EXPANDING,
                                          memsize := memsize (dominfo st d) + k\<rparr>"
    using g by simp
  have o: "memsize (dominfo st x) \<le> memsize (dominfo sg x)" if "x \<notin> set vs" for x
  proof (cases "x = d")
    case True
    then show ?thesis using dd assms(2) by simp
  next
    case False
    with that g have "dominfo sg x = dominfo st x" by simp
    then show ?thesis by simp
  qed
  show ?thesis unfolding keeps_def prod.case using g o by simp
qed


lemma rebalance_loop_keeps:
  assumes "rebalance_loop ectx rctx ve vs st = Inr st'"
  shows "\<exists>vs'. keeps (vs, st) (vs', st')"
proof (rule rebalance_loop_rel[where R = keeps, OF _ _ keeps_trans assms])
  fix ve vs st ve' vs' st'
  assume a: "rebalance_step ectx rctx ve vs st = Continue (ve', vs', st')"
  note c = rebalance_step_cases[OF a]
  show "keeps (vs, st) (vs', st')"
  proof (cases "st' = st \<and> vs' = vs")
    case True
    then show ?thesis by (simp add: keeps_refl)
  next
    case False
    with c obtain k sg where g: "0 < k" "grow_rel (hd ve) vs st k vs' sg"
      and alt: "st' = sg \<or> st' = upd_dom (hd ve) (eval_expand_force ectx) sg"
      by blast
    have k1: "keeps (vs, st) (vs', sg)" using grow_rel_keeps[OF g(2)] g(1) by simp
    from alt show ?thesis
    proof
      assume "st' = sg" with k1 show ?thesis by simp
    next
      assume "st' = upd_dom (hd ve) (eval_expand_force ectx) sg"
      then have "keeps (vs', sg) (vs', st')" by (simp add: keeps_def)
      with k1 show ?thesis by (rule keeps_trans)
    qed
  qed
next
  fix ve vs st st'
  assume "rebalance_step ectx rctx ve vs st = Break (Inr st')"
  from rebalance_step_Break[OF this] show "\<exists>vs'. keeps (vs, st) (vs', st')"
    using keeps_refl grow_rel_keeps by (metis order_refl)
qed

lemma set_insort_by [simp]: "set (insort_by lt x xs) = insert x (set xs)"
  by (induction xs) auto

lemma set_sort_by [simp]: "set (sort_by lt xs) = set xs"
  by (induction xs) (simp_all add: sort_by_def)

lemma trim_loop_keeps:
  assumes "\<And>di. memsize_decr di \<le> lower di"
  shows "keeps (ds, st) (ds, snd (trim_loop lower ds goal st))
         \<and> (\<forall>x. x \<notin> set ds \<longrightarrow> dominfo (snd (trim_loop lower ds goal st)) x = dominfo st x)
         \<and> host_free (snd (trim_loop lower ds goal st)) = host_free st"
proof (induction ds arbitrary: goal st)
  case Nil
  then show ?case by (simp add: keeps_refl)
next
  case (Cons d ds)
  define trim where "trim = memsize (dominfo st d) - lower (dominfo st d)"
  show ?case
  proof (cases "trim > 0")
    case False
    then have eq: "trim_loop lower (d # ds) goal st = trim_loop lower ds goal st"
      by (simp add: trim_def Let_def)
    from Cons.IH[where goal=goal and st=st] show ?thesis
      unfolding eq by (auto simp: keeps_def)
  next
    case True
    define trim' where "trim' = min trim goal"
    define st1 where "st1 = upd_dom d (\<lambda>di. di\<lparr>memsize := memsize di - trim'\<rparr>) st"
    have tl: "trim' \<le> trim" by (simp add: trim'_def)
    have f: "memsize_decr (dominfo st d) \<le> memsize (dominfo st d) - trim'"
      using assms[of "dominfo st d"] tl by (simp add: trim_def)
    have k1: "keeps (d # ds, st) (d # ds, st1)"
      using f by (auto simp add: keeps_def st1_def)
    have o1: "\<forall>x. x \<notin> set (d # ds) \<longrightarrow> dominfo st1 x = dominfo st x"
      by (simp add: st1_def)
    have h1: "host_free st1 = host_free st" by (simp add: st1_def)
    have eq: "trim_loop lower (d # ds) goal st
       = (if goal - trim' \<le> 0 then (goal - trim', st1) else trim_loop lower ds (goal - trim') st1)"
      using True by (simp add: trim_def trim'_def st1_def Let_def)
    show ?thesis
    proof (cases "goal - trim' \<le> 0")
      case True
      then show ?thesis unfolding eq using k1 o1 h1 by simp
    next
      case False
      from Cons.IH[where goal="goal - trim'" and st=st1]
      have k2: "keeps (ds, st1) (ds, snd (trim_loop lower ds (goal - trim') st1))"
        and o2: "\<forall>x. x \<notin> set ds \<longrightarrow> dominfo (snd (trim_loop lower ds (goal - trim') st1)) x = dominfo st1 x"
        and h2: "host_free (snd (trim_loop lower ds (goal - trim') st1)) = host_free st1"
        by simp_all
      have k2': "keeps (d # ds, st1) (d # ds, snd (trim_loop lower ds (goal - trim') st1))"
        using k2 by (auto simp: keeps_def)
      show ?thesis unfolding eq using False keeps_trans[OF k1 k2'] o1 o2 h1 h2 by simp
    qed
  qed
qed


definition floor_kept :: "sched_state \<Rightarrow> sched_state \<Rightarrow> bool" where
  "floor_kept st st' =
     (same_globals st st'
      \<and> (\<forall>x. memsize_decr (dominfo st' x) = memsize_decr (dominfo st x)
              \<and> min (memsize (dominfo st x)) (memsize_decr (dominfo st x))
                   \<le> memsize (dominfo st' x))
      \<and> (\<forall>x. is_shrink_soft_protected st (dominfo st x)
              \<longrightarrow> memsize (dominfo st x) \<le> memsize (dominfo st' x)))"

definition ticks_same :: "sched_state \<Rightarrow> sched_state \<Rightarrow> bool" where
  "ticks_same st st' = (\<forall>x. last_expand_tick (dominfo st' x) = last_expand_tick (dominfo st x))"

lemma ticks_same_refl [simp]: "ticks_same st st"
  by (simp add: ticks_same_def)

lemma ticks_same_trans: "ticks_same a b \<Longrightarrow> ticks_same b c \<Longrightarrow> ticks_same a c"
  by (simp add: ticks_same_def)

lemma floor_kept_refl: "floor_kept st st"
  by (simp add: floor_kept_def)

lemma floor_kept_trans:
  assumes "floor_kept a b" "ticks_same a b" "floor_kept b c"
  shows "floor_kept a c"
proof -
  note ab = assms(1)[unfolded floor_kept_def]
  note bc = assms(3)[unfolded floor_kept_def]
  have g: "same_globals a c" using ab bc same_globals_trans by blast
  have tk: "sched_tick b = sched_tick a" using ab by (simp add: same_globals_def)
  have md: "memsize_decr (dominfo c x) = memsize_decr (dominfo a x)
              \<and> min (memsize (dominfo a x)) (memsize_decr (dominfo a x))
                   \<le> memsize (dominfo c x)" for x
  proof -
    have 1: "min (memsize (dominfo a x)) (memsize_decr (dominfo a x)) \<le> memsize (dominfo b x)"
      using ab by simp
    have 2: "min (memsize (dominfo b x)) (memsize_decr (dominfo a x)) \<le> memsize (dominfo c x)"
      using ab bc by simp
    have 3: "memsize_decr (dominfo c x) = memsize_decr (dominfo a x)"
      using ab bc by simp
    from 1 2 3 show ?thesis by linarith
  qed
  have pr: "memsize (dominfo a x) \<le> memsize (dominfo c x)"
    if "is_shrink_soft_protected a (dominfo a x)" for x
  proof -
    have "is_shrink_soft_protected b (dominfo b x)"
      using that assms(2) tk by (simp add: is_shrink_soft_protected_def ticks_same_def)
    with bc have "memsize (dominfo b x) \<le> memsize (dominfo c x)" by simp
    moreover from that ab have "memsize (dominfo a x) \<le> memsize (dominfo b x)" by simp
    ultimately show ?thesis by simp
  qed
  show ?thesis unfolding floor_kept_def using g md pr by simp
qed

lemma trim_loop_ticks_same: "ticks_same st (snd (trim_loop lower ds goal st))"
proof (induction ds arbitrary: goal st)
  case Nil
  then show ?case by simp
next
  case (Cons d ds)
  have 1: "ticks_same st (upd_dom d (\<lambda>di. di\<lparr>memsize := memsize di - c\<rparr>) st)" for c
    by (simp add: ticks_same_def)
  show ?case
    using Cons.IH ticks_same_trans[OF 1 Cons.IH] 1
    by (simp add: Let_def)
qed

lemma soft_round_floor_kept:
  assumes lo: "\<And>di. memsize_decr di \<le> lower di"
    and cand: "\<And>x. cand x \<Longrightarrow> \<not> is_shrink_soft_protected st (dominfo st x)"
  shows "floor_kept st (snd (trim_loop lower (sort_by lt (filter cand (managed st))) goal st))
         \<and> host_free (snd (trim_loop lower (sort_by lt (filter cand (managed st))) goal st))
             = host_free st"
proof -
  define ds where "ds = sort_by lt (filter cand (managed st))"
  define st' where "st' = snd (trim_loop lower ds goal st)"
  from trim_loop_keeps[of lower ds st goal, OF lo]
  have k: "keeps (ds, st) (ds, st')"
    and o: "\<forall>x. x \<notin> set ds \<longrightarrow> dominfo st' x = dominfo st x"
    and h: "host_free st' = host_free st"
    by (simp_all add: st'_def)
  note kk = k[unfolded keeps_def prod.case]
  have pr: "memsize (dominfo st x) \<le> memsize (dominfo st' x)"
    if "is_shrink_soft_protected st (dominfo st x)" for x
  proof -
    from that cand have "x \<notin> set ds" by (auto simp: ds_def)
    with o show ?thesis by simp
  qed
  have "floor_kept st st'" unfolding floor_kept_def using kk pr by simp
  then show ?thesis using h unfolding st'_def ds_def by simp
qed

definition soft_ok :: "sched_state \<Rightarrow> sched_state \<Rightarrow> bool" where
  "soft_ok st st' = (floor_kept st st' \<and> ticks_same st st' \<and> host_free st' = host_free st)"

lemma soft_ok_refl: "soft_ok st st"
  by (simp add: soft_ok_def floor_kept_refl)

lemma soft_ok_trans: "soft_ok a b \<Longrightarrow> soft_ok b c \<Longrightarrow> soft_ok a c"
  unfolding soft_ok_def using floor_kept_trans ticks_same_trans by auto

lemma soft_reclaim_round_1_ok: "soft_ok st (snd (soft_reclaim_round_1 goal st))"
  unfolding soft_ok_def soft_reclaim_round_1_def
  using soft_round_floor_kept[of "\<lambda>di. max (memsize_decr di) (dmem_quota di)" "soft_candidate_1 st" st]
    trim_loop_ticks_same
  by (simp add: floor_kept_refl soft_candidate_1_def Let_def)

lemma soft_reclaim_round_2_ok: "soft_ok st (snd (soft_reclaim_round_2 goal st))"
  unfolding soft_ok_def soft_reclaim_round_2_def
  using soft_round_floor_kept[of "\<lambda>di. max (memsize_decr di) (dmem_min di)" "soft_candidate_2 st" st]
    trim_loop_ticks_same
  by (simp add: floor_kept_refl soft_candidate_2_def Let_def)

lemma soft_reclaim_round_3_ok: "soft_ok st (snd (soft_reclaim_round_3 goal st))"
  unfolding soft_ok_def soft_reclaim_round_3_def
  using soft_round_floor_kept[of "\<lambda>di. max (memsize_decr di) (dmem_quota di)" "soft_candidate_3 st" st]
    trim_loop_ticks_same
  by (simp add: floor_kept_refl soft_candidate_3_def Let_def)

lemma soft_reclaim_ok: "soft_ok st (snd (soft_reclaim goal st))"
proof -
  define req where "req = roundup goal (memquant_kbs st)"
  obtain g1 s1 where r1: "soft_reclaim_round_1 req st = (g1, s1)" by (cases "soft_reclaim_round_1 req st") auto
  obtain g2 s2 where r2: "soft_reclaim_round_2 g1 s1 = (g2, s2)" by (cases "soft_reclaim_round_2 g1 s1") auto
  obtain g3 s3 where r3: "soft_reclaim_round_3 g2 s2 = (g3, s3)" by (cases "soft_reclaim_round_3 g2 s2") auto
  have "soft_ok st s1" using soft_reclaim_round_1_ok[of st req] r1 by simp
  moreover have "soft_ok s1 s2" using soft_reclaim_round_2_ok[of s1 g1] r2 by simp
  moreover have "soft_ok s2 s3" using soft_reclaim_round_3_ok[of s2 g2] r3 by simp
  ultimately have "soft_ok st s3" using soft_ok_trans by blast
  then show ?thesis by (simp add: soft_reclaim_def req_def[symmetric] r1 r2 r3)
qed

lemma sched_reserved_soft_ok:
  "floor_kept st (sched_reserved_soft st) \<and> ticks_same st (sched_reserved_soft st)"
proof -
  obtain r s where rs: "soft_reclaim (cfg_host_reserved_soft (config st) - host_free st) st = (r, s)"
    by (cases "soft_reclaim (cfg_host_reserved_soft (config st) - host_free st) st") auto
  from soft_reclaim_ok[of st "cfg_host_reserved_soft (config st) - host_free st"] rs
  have "floor_kept st s" "ticks_same st s" by (simp_all add: soft_ok_def)
  then have "floor_kept st (s\<lparr>host_free := host_free s + r\<rparr>)"
      "ticks_same st (s\<lparr>host_free := host_free s + r\<rparr>)"
    by (simp_all add: floor_kept_def ticks_same_def same_globals_def)
  then show ?thesis by (simp add: sched_reserved_soft_def rs floor_kept_refl)
qed

definition sizes_same :: "sched_state \<Rightarrow> sched_state \<Rightarrow> bool" where
  "sizes_same st st' =
     (same_globals st st'
      \<and> (\<forall>x. memsize (dominfo st' x) = memsize (dominfo st x)
              \<and> memsize_decr (dominfo st' x) = memsize_decr (dominfo st x)
              \<and> last_expand_tick (dominfo st' x) = last_expand_tick (dominfo st x)))"

lemma sizes_same_foldl:
  assumes "\<And>s d. sizes_same s (F s d)"
  shows "sizes_same st (foldl F st vec)"
proof (induction vec arbitrary: st)
  case Nil
  then show ?case by (simp add: sizes_same_def)
next
  case (Cons d vec)
  have "sizes_same st (F st d)" by (rule assms)
  moreover have "sizes_same (F st d) (foldl F (F st d) vec)" by (rule Cons.IH)
  ultimately show ?case by (simp add: sizes_same_def same_globals_def)
qed

lemma sched_rebalance_floor_kept:
  assumes "sched_rebalance st = Inr st'"
  shows "floor_kept st st'"
proof -
  define vec where "vec = filter (rebalance_candidate st) (managed st)"
  show ?thesis
  proof (cases "vec = []")
    case True
    with assms show ?thesis by (simp add: sched_rebalance_def vec_def floor_kept_refl)
  next
    case False
    show ?thesis
    proof (cases "eval_expand_force_context st vec")
      case (Inl e)
      with assms False show ?thesis by (simp add: sched_rebalance_def vec_def[symmetric])
    next
      case (Inr ectx)
      define rctx where "rctx = eval_resist_force_context st vec"
      define st1 where "st1 = foldl (\<lambda>s d. upd_dom d (eval_resist_force rctx)
                                      (upd_dom d (eval_expand_force ectx) s)) st vec"
      define st2 where "st2 = foldl (\<lambda>s d. upd_dom d (\<lambda>di. di\<lparr>expand_force0 := expand_force di\<rparr>) s)
                        st1 vec"
      define vec_expand where "vec_expand = filter (\<lambda>d. \<not> (expand_force (dominfo st2 d) \<le> eps
                                    \<or> memsize (dominfo st2 d) \<ge> memsize_incr (dominfo st2 d))) vec"
      define vec_shrink where "vec_shrink = filter (\<lambda>d. \<not> (memsize (dominfo st2 d) \<le> memsize_decr (dominfo st2 d)
                                    \<or> is_shrink_soft_protected st2 (dominfo st2 d))) vec"
      have loop: "rebalance_loop ectx rctx
                 (sort_by (sortfunc_desc_by_expand_force st2) vec_expand)
                 (sort_by (sortfunc_asc_by_resist_force st2) vec_shrink) st2 = Inr st'"
        using assms False Inr
        by (simp add: sched_rebalance_def vec_def[symmetric] Let_def rctx_def st1_def st2_def
            vec_expand_def vec_shrink_def)
      have s1: "sizes_same st st1" unfolding st1_def
        by (rule sizes_same_foldl) (simp add: sizes_same_def same_globals_def)
      have s2: "sizes_same st1 st2" unfolding st2_def
        by (rule sizes_same_foldl) (simp add: sizes_same_def same_globals_def)
      have ss: "sizes_same st st2" using s1 s2 by (simp add: sizes_same_def same_globals_def)
      note sz = ss[unfolded sizes_same_def]
      from rebalance_loop_keeps[OF loop] obtain vs'
        where k: "keeps (sort_by (sortfunc_asc_by_resist_force st2) vec_shrink, st2) (vs', st')"
        by blast
      note kk = k[unfolded keeps_def prod.case]
      have g: "same_globals st st'" using sz kk same_globals_trans by blast
      have pr: "memsize (dominfo st x) \<le> memsize (dominfo st' x)"
        if "is_shrink_soft_protected st (dominfo st x)" for x
      proof -
        have "is_shrink_soft_protected st2 (dominfo st2 x)"
          using that sz by (simp add: is_shrink_soft_protected_def same_globals_def)
        then have "x \<notin> set (sort_by (sortfunc_asc_by_resist_force st2) vec_shrink)"
          by (simp add: vec_shrink_def)
        with kk have "memsize (dominfo st2 x) \<le> memsize (dominfo st' x)" by simp
        then show ?thesis using sz by simp
      qed
      show ?thesis unfolding floor_kept_def using g pr kk sz by simp
    qed
  qed
qed

subsection \<open>The free-memory command (\<^verbatim>\<open>sched_freemem\<close>)\<close>

text \<open>\<^verbatim>\<open>sched_freemem\<close> returns its status and stores the two free-memory figures through
  \<^verbatim>\<open>p_freemem_with_slack\<close> and \<^verbatim>\<open>p_freemem_less_slack\<close>. Its first statement is the test of
  \<^verbatim>\<open>memsched_pause_level\<close>. What follows the test reads the memory figures of the hypervisor
  and shrinks domains through it; it is the parameter \<open>paused\<close>.\<close>

definition sched_freemem ::
  "(nat \<Rightarrow> bool \<Rightarrow> bool \<Rightarrow> bool \<Rightarrow> int \<Rightarrow> sched_state \<Rightarrow> (char \<times> nat \<times> nat) \<times> sched_state)
     \<Rightarrow> nat \<Rightarrow> bool \<Rightarrow> bool \<Rightarrow> bool \<Rightarrow> int \<Rightarrow> sched_state \<Rightarrow> (char \<times> nat \<times> nat) \<times> sched_state"
where
  "sched_freemem paused u_reqamt above_slack draw_reserved_hard must timeout st =
     (if memsched_pause_level st = 0 then ((CHR ''P'', 0, 0), st)
      else paused u_reqamt above_slack draw_reserved_hard must timeout st)"

subsection \<open>Notions of the specification\<close>




text \<open>The key and the value of a report line \<^verbatim>\<open>key: value\<close>, and the value that the last
  line of a key gives in a report body.\<close>

definition line_key :: "string \<Rightarrow> string" where
  "line_key t = takeWhile (\<lambda>c. c \<noteq> CHR '':'') t"

definition line_value :: "string \<Rightarrow> string" where
  "line_value t = dropWhile isblank (tl (dropWhile (\<lambda>c. c \<noteq> CHR '':'') t))"

definition last_value :: "string \<Rightarrow> string \<Rightarrow> string option" where
  "last_value k body =
     (case filter (\<lambda>t. CHR '':'' \<in> set t \<and> line_key t = k) (strtok_nl [] body) of
        [] \<Rightarrow> None
      | ts \<Rightarrow> Some (line_value (last ts)))"

subsection \<open>Reference values\<close>

text \<open>The defaults of \<^verbatim>\<open>config_def.h\<close>, as \<^verbatim>\<open>membalance_config::defaults\<close> sets them. A
  decimal fraction of the source stands for the nearest double.\<close>

definition default_config :: membalance_config where
  "default_config =
     \<lparr>cfg_interval = 5, cfg_host_reserved_hard = 0, cfg_host_reserved_soft = 0,
      cfg_rate_high = Config_Item 200 False True, cfg_rate_low = Config_Item 0 False True,
      cfg_rate_zero = Config_Item 30 False True,
      cfg_dmem_incr = Config_Item (rnd (6 / 100)) False True,
      cfg_dmem_decr = Config_Item (rnd (4 / 100)) False True,
      cfg_guest_free_threshold = Config_Item (rnd (15 / 100)) False True,
      cfg_startup_time = Config_Item 300 False True,
      cfg_trim_unresponsive = Config_Item 200 False True,
      cfg_trim_unmanaged = Config_Item True False True\<rparr>"

text \<open>A descriptor as the constructor, \<^verbatim>\<open>on_enter_managed\<close> and \<^verbatim>\<open>begin_sched_tick\<close>
  leave it; the per-tick fields they do not set are 0 here.\<close>

definition new_domain_info :: domain_info where
  "new_domain_info =
     \<lparr>xs_mem_max = -1, xs_mem_videoram = -11, ctrl_modes_allowed = 0,
      xc_memory = -1, xc_dmem_max = -1, xc_dmem_quota = -1, xc_dmem_min = -1,
      xc_dmem_incr = -1, xc_dmem_decr = -1, xc_rate_high = -1, xc_rate_low = -1,
      xc_rate_zero = -1, xc_guest_free_threshold = -1, xc_startup_time = -1,
      xc_trim_unresponsive = -1, xc_trim_unmanaged = TriMaybe,
      dmem_max = -1, dmem_quota = -1, dmem_min = -1, dmem_incr = -1, dmem_decr = -1,
      rate_high = -1, rate_low = -1, rate_zero = -1, guest_free_threshold = -1,
      startup_time = -1, trim_unresponsive = -1, trim_unmanaged = True,
      last_report_tick = 0, no_report_time = 0, rate_history = [],
      time_rate_below_low = 0, time_rate_below_high = 0, last_expand_tick = 0,
      xc_runnable = True, report_raw = None, valid_data = False, trimming_to_quota = False,
      balside = RebalanceSide_NEUTRAL, rate = 0, freepct = 0, fast_rate = 0, slow_rate = 0,
      memgoal0 = 0, memsize0 = 0, memsize = 0, memsize_incr = 0, memsize_decr = 0,
      expand_force = 0, resist_force = 0, expand_force0 = 0\<rparr>"

text \<open>A scheduler state at tick 1001 with 4 KB pages and the given reserves, free memory
  and descriptors.\<close>

definition sched_state_of ::
  "int \<Rightarrow> int \<Rightarrow> int \<Rightarrow> int list \<Rightarrow> (int \<Rightarrow> domain_info) \<Rightarrow> sched_state"
where
  "sched_state_of hard soft free ids doms =
     \<lparr>sched_tick = 1001, host_free = free,
      config = default_config\<lparr>cfg_host_reserved_hard := hard, cfg_host_reserved_soft := soft\<rparr>,
      memquant_kbs = 4, memsched_pause_level = 0, managed = ids, dominfo = doms\<rparr>"

text \<open>A managed domain in AUTO mode with the default rate thresholds and the sizes
  \<open>dmem_min\<close> = 1 GB, \<open>dmem_quota\<close>, \<open>dmem_max\<close> = 8 GB, of current size \<open>sz\<close> with the
  per-tick caps of \<open>dmem_incr\<close> = 6% and \<open>dmem_decr\<close> = 4%, reporting rate \<open>r\<close>.\<close>

definition managed_domain :: "int \<Rightarrow> int \<Rightarrow> int \<Rightarrow> int \<Rightarrow> int \<Rightarrow> domain_info" where
  "managed_domain quota sz incr decr r =
     new_domain_info\<lparr>ctrl_modes_allowed := 1, xs_mem_max := 8388608,
       dmem_max := 8388608, dmem_quota := quota, dmem_min := 1048576,
       dmem_incr := rnd (6 / 100), dmem_decr := rnd (4 / 100),
       rate_high := 200, rate_low := 0, rate_zero := 30, guest_free_threshold := rnd (15 / 100),
       last_report_tick := 1001, valid_data := True,
       rate := r, fast_rate := r, slow_rate := r,
       time_rate_below_low := (if r \<le> 0 then 5 else 0),
       time_rate_below_high := (if r < 200 then 5 else 0),
       memgoal0 := sz, memsize0 := sz, memsize := sz, memsize_incr := incr, memsize_decr := decr\<rparr>"

text \<open>Domain 1 is 2.5 GB below its quota of 4 GB with a high rate; domain 2 has quota
  2 GB, per-tick floor 3019900 KB, size \<open>sz2\<close> and rate 0, and was last expanded at tick
  \<open>t2\<close>.\<close>

definition two_domains :: "64 word \<Rightarrow> int \<Rightarrow> int \<Rightarrow> domain_info" where
  "two_domains t2 sz2 =
     (\<lambda>_. new_domain_info)
       (1 := managed_domain 4194304 2621440 2778728 2516584 300,
        2 := (managed_domain 2097152 sz2 3334472 3019900 0)\<lparr>last_expand_tick := t2\<rparr>)"

text \<open>A C library for unsigned decimal integers: \<open>strtol\<close> and \<open>strtod\<close> convert the leading
  decimal digits of the string and never set \<^verbatim>\<open>errno\<close>; \<open>fmt_ld\<close> prints in decimal. On
  strings of digits this is what the C library does.\<close>

definition digit_of :: "char \<Rightarrow> nat" where
  "digit_of c = of_char c - 48"

definition strtol_decimal :: "string \<Rightarrow> int \<times> nat \<times> bool" where
  "strtol_decimal s =
     (let ds = takeWhile isdigit s
      in (int (foldl (\<lambda>n c. 10 * n + digit_of c) 0 ds), length ds, False))"

definition strtod_decimal :: "string \<Rightarrow> real \<times> nat \<times> bool" where
  "strtod_decimal s =
     (let ds = takeWhile isdigit s
      in (rnd (real (foldl (\<lambda>n c. 10 * n + digit_of c) 0 ds)), length ds, False))"

function dec_of_nat :: "nat \<Rightarrow> string" where
  "dec_of_nat n =
     (if n < 10 then [''0123456789'' ! n]
      else dec_of_nat (n div 10) @ [''0123456789'' ! (n mod 10)])"
  by pat_completeness auto
termination
  by (relation "measure id") auto

declare dec_of_nat.simps [simp del]

definition libc_decimal :: libc where
  "libc_decimal =
     \<lparr>strtol = strtol_decimal, strtod = strtod_decimal,
      fmt_ld = (\<lambda>i. if i < 0 then CHR ''-'' # dec_of_nat (nat (- i)) else dec_of_nat (nat i))\<rparr>"

text \<open>The text of a guest report with the given lines, each ended by a newline.\<close>

definition report_lines :: "string list \<Rightarrow> string" where
  "report_lines ls = concat (map (\<lambda>l. l @ [CHR 0x0A]) ls)"

text \<open>A managed domain that last reported at tick 1000, with the given rate history and
  a pending report of the given lines.\<close>

definition reporting_domain :: "rate_record list \<Rightarrow> string list \<Rightarrow> domain_info" where
  "reporting_domain hist ls =
     (managed_domain 4194304 2621440 2778728 2516584 0)
       \<lparr>last_report_tick := 1000, valid_data := False, rate_history := hist,
        report_raw := Some (report_lines ls)\<rparr>"

lemmas report_eval =
  collect_domain_def report_rate_def account_rates_def parse_domain_report_def report_lines_def report_kv_def report_line_def
  isblank_def isdigit_def a2long_def a2double_def libc_decimal_def strtol_decimal_def
  strtod_decimal_def digit_of_def calc_rates_def weight_samples_def weight_loop.simps
  slow_weights_def long_of_double_def collect_valid_def rnd_eval Let_def

text \<open>Three candidates of stage 4 with their forces as \<^verbatim>\<open>eval_expand_force\<close> and
  \<^verbatim>\<open>eval_resist_force\<close> compute them for \<open>rmax = 300\<close>: domain 1 asks for memory with force
  101, domain 2 is at its per-tick floor, domain 3 resists with force 101.\<close>

definition three_domains :: "int \<Rightarrow> domain_info" where
  "three_domains =
     (\<lambda>_. new_domain_info)
       (1 := (managed_domain 4194304 2621440 2778728 2516584 300)\<lparr>expand_force := 101\<rparr>,
        2 := managed_domain 2097152 3019900 3334472 3019900 0,
        3 := (managed_domain 4194304 3145728 3334472 3019900 300)\<lparr>resist_force := 101\<rparr>)"

text \<open>The doubles nearest to 4% and to 15%, as far as the reference values need them.\<close>

lemma default_fractions:
  "rnd (4 / 100) < 1" "rnd (rnd (15 / 100) * 100) < 100"
proof -
  have "\<bar>rnd (4 / 100) - 4 / 100\<bar> \<le> \<bar>4 / 100\<bar> / 2 ^ 53" by (rule rnd_error)
  also have "\<dots> \<le> 1 / 100" by simp
  finally show "rnd (4 / 100) < 1" by linarith
  have "\<bar>rnd (15 / 100) - 15 / 100\<bar> \<le> \<bar>15 / 100\<bar> / 2 ^ 53" by (rule rnd_error)
  also have "\<dots> \<le> 1 / 100" by simp
  finally have a: "0 \<le> rnd (15 / 100)" "rnd (15 / 100) \<le> 16 / 100" by linarith+
  define b where "b = rnd (15 / 100) * 100"
  have b: "0 \<le> b" "b \<le> 16" using a by (simp_all add: b_def)
  have "\<bar>rnd b - b\<bar> \<le> \<bar>b\<bar> / 2 ^ 53" by (rule rnd_error)
  also have "\<dots> \<le> \<bar>b\<bar>" by (simp add: divide_le_eq)
  finally have "rnd b \<le> 32" using b by linarith
  then show "rnd (rnd (15 / 100) * 100) < 100" by (simp add: b_def)
qed

text \<open>A domain in AUTO mode as its build configuration and the hypervisor store describe
  it, before \<^verbatim>\<open>resolve_settings\<close>: \<^verbatim>\<open>maxmem\<close>, \<^verbatim>\<open>memory\<close>, and the optional \<^verbatim>\<open>dmem_max\<close>,
  \<^verbatim>\<open>dmem_quota\<close> and \<^verbatim>\<open>rate_high\<close> (\<open>-1\<close> when not given).\<close>

definition built_domain :: "int \<Rightarrow> int \<Rightarrow> int \<Rightarrow> int \<Rightarrow> int \<Rightarrow> domain_info" where
  "built_domain maxmem mem dmax quota high =
     new_domain_info\<lparr>ctrl_modes_allowed := 1, xs_mem_max := maxmem, xc_memory := mem,
       xc_dmem_max := dmax, xc_dmem_quota := quota, xc_rate_high := high\<rparr>"

text \<open>A built domain with its own \<^verbatim>\<open>guest_free_threshold\<close> of 25% and a pending report of
  1000 KB/s with 30% of guest memory free, and a scheduler state whose global
  \<^verbatim>\<open>guest_free_threshold\<close> was set to 50%.\<close>

definition threshold_domain :: domain_info where
  "threshold_domain =
     (built_domain 8388608 2097152 4194304 3145728 (- 1))
       \<lparr>xc_guest_free_threshold := 1 / 4, last_report_tick := 1000,
        report_raw := Some (report_lines [''A'', ''action: report'', ''kbsec: 1000'', ''freepct: 30''])\<rparr>"

definition threshold_state :: sched_state where
  "threshold_state =
     (sched_state_of 0 0 0 [1] (\<lambda>_. new_domain_info))
       \<lparr>config := default_config\<lparr>cfg_guest_free_threshold := Config_Item (1 / 2) True True\<rparr>\<rparr>"

lemmas resolve_eval =
  built_domain_def new_domain_info_def default_config_def
  resolve_values_def round_sizes_def roundup_def coherence_checks_def
  automode_def CTRL_MODE_AUTO_def assign_def undef_def xc_or_config_def isval_def
  bool_of_tribool_def dec_of_nat.simps

lemmas sched_eval =
  sched_rebalance_def sched_state_of_def managed_domain_def
  new_domain_info_def default_config_def rebalance_candidate_def runnable_def Let_def
  eval_expand_force_context_def eval_resist_force_context_def eval_expand_force_def
  eval_resist_force_def rate_category_def size_expand_category_def size_resist_category_def
  force_base_def eval_force_def rnd_eval upd_dom_def eps_def is_shrink_soft_protected_def
  shrink_protection_time_def sort_by_def sortfunc_desc_by_expand_force_def
  sortfunc_asc_by_resist_force_def sort_asc_def sort_desc_def word_le_nat_alt
  rebalance_loop.simps rebalance_step_def expand_target_def expand_into_freemem_def
  free_allocate_def resist_force_free_soft_def rounddown_def
  rebalance_domains.simps rebalance_victim_def transfer_def shave_floor_def rebalance_next_def
  two_domains_def

lemmas soft_eval =
  sched_reserved_soft_def soft_reclaim_def soft_reclaim_round_1_def soft_reclaim_round_2_def
  soft_reclaim_round_3_def soft_candidate_1_def soft_candidate_2_def soft_candidate_3_def
  roundup_def sortfunc_desc_by_time_rate_below_low_def sortfunc_desc_by_time_rate_below_high_def

section \<open>Properties\<close>

subsection \<open>Free-memory allocation step\<close>

lemma rounddown_bounds:
  assumes "0 < r" "0 \<le> n"
  shows "rounddown n r \<le> n" "n - rounddown n r < int r" "int r dvd rounddown n r"
proof -
  have r: "0 < int r" using assms by simp
  have eq: "n = rounddown n r + n mod int r"
    by (simp add: rounddown_def)
  show "int r dvd rounddown n r" by (simp add: rounddown_def)
  have m: "0 \<le> n mod int r" "n mod int r < int r" using r by simp_all
  show "rounddown n r \<le> n" using eq m by linarith
  show "n - rounddown n r < int r" using eq m by linarith
qed

text \<open>
  C6. For an expansion candidate \<open>d\<close> with requested amount \<open>need \<ge> 0\<close>, the free-memory
  step grants \<open>min need (host_free - reserve)\<close> rounded down to the allocation quantum, and
  0 when \<open>host_free - reserve \<le> 0\<close>; the reserve is \<open>host_reserved_hard\<close> when the expand
  force of \<open>d\<close> exceeds 45 and \<open>host_reserved_soft\<close> otherwise; \<open>host_free\<close> is decremented
  by the granted amount, which is added to the scheduled size of \<open>d\<close>. The granted amount
  is the largest multiple of the quantum not above \<open>min need (host_free - reserve)\<close>.
\<close>

theorem free_allocate_grant:
  assumes need: "0 \<le> need" and q: "0 < memquant_kbs st"
  shows "let reserve = (if expand_force (dominfo st d) > 45
                        then cfg_host_reserved_hard (config st)
                        else cfg_host_reserved_soft (config st));
             avail = host_free st - reserve;
             granted = (if avail \<le> 0 then 0 else rounddown (min need avail) (memquant_kbs st))
         in free_allocate (expand_force (dominfo st d)) need st
              = Inr (granted, st\<lparr>host_free := host_free st - granted\<rparr>)
          \<and> expand_into_freemem d need st
              = Inr (granted \<noteq> 0,
                     upd_dom d (\<lambda>di. di\<lparr>memsize := memsize di + granted\<rparr>)
                       (st\<lparr>host_free := host_free st - granted\<rparr>))
          \<and> 0 \<le> granted \<and> granted \<le> need
          \<and> (0 < avail \<longrightarrow> int (memquant_kbs st) dvd granted
                \<and> granted \<le> min need avail \<and> min need avail - granted < int (memquant_kbs st))"
proof -
  define reserve where "reserve = (if expand_force (dominfo st d) > 45
                        then cfg_host_reserved_hard (config st)
                        else cfg_host_reserved_soft (config st))"
  define avail where "avail = host_free st - reserve"
  define granted where
    "granted = (if avail \<le> 0 then 0 else rounddown (min need avail) (memquant_kbs st))"
  have fa: "free_allocate (expand_force (dominfo st d)) need st
           = Inr (granted, st\<lparr>host_free := host_free st - granted\<rparr>)"
    using need
    by (simp add: free_allocate_def granted_def avail_def reserve_def resist_force_free_soft_def
        Let_def min.commute)
  have ex: "expand_into_freemem d need st
              = Inr (granted \<noteq> 0,
                     upd_dom d (\<lambda>di. di\<lparr>memsize := memsize di + granted\<rparr>)
                       (st\<lparr>host_free := host_free st - granted\<rparr>))"
    by (simp add: expand_into_freemem_def fa upd_dom_def)
  have nn: "0 \<le> granted \<and> granted \<le> need"
    using rounddown_nonneg_le[of "min need avail" "memquant_kbs st"] need
    by (cases "0 < avail") (auto simp: granted_def)
  have rb: "0 < avail \<Longrightarrow> int (memquant_kbs st) dvd granted
                \<and> granted \<le> min need avail \<and> min need avail - granted < int (memquant_kbs st)"
    using rounddown_bounds[OF q, of "min need avail"] need
    by (simp add: granted_def)
  show ?thesis
    unfolding Let_def using fa ex rb nn
    by (simp only: reserve_def[symmetric] avail_def[symmetric] granted_def[symmetric]) simp
qed

theorem free_allocate_grant_witness:
  "(0::int) \<le> 1234
   \<and> 0 < memquant_kbs (sched_state_of 100 500 1000 [1] (\<lambda>_. new_domain_info\<lparr>expand_force := 100\<rparr>))
   \<and> expand_into_freemem 1 1234 (sched_state_of 100 500 1000 [1] (\<lambda>_. new_domain_info\<lparr>expand_force := 100\<rparr>))
       = Inr (True, upd_dom 1 (\<lambda>di. di\<lparr>memsize := memsize di + 900\<rparr>)
                (sched_state_of 100 500 100 [1] (\<lambda>_. new_domain_info\<lparr>expand_force := 100\<rparr>)))"
  using free_allocate_grant [of 1234 "sched_state_of 100 500 1000 [1] (\<lambda>_. new_domain_info\<lparr>expand_force := 100\<rparr>)" 1]
  by (simp add: sched_state_of_def new_domain_info_def rounddown_def Let_def)

subsection \<open>Rate smoothing\<close>





subsection \<open>Shrink protection after an expansion\<close>

text \<open>
  C3. If a managed domain \<open>d\<close> was expanded at tick \<open>t\<close> (\<open>last_expand_tick = t\<close>), then
  at tick \<open>t + 1\<close> neither the soft-reserve stage (stage 3, its three rounds) nor the
  rebalancing stage (stage 4), run one after the other or alone, reduces the scheduled
  \<open>memsize\<close> of \<open>d\<close>; and at tick \<open>t + 2\<close> the domain is no longer shrink-protected
  (with \<open>shrink_protection_time = 1\<close>).
\<close>

theorem expanded_domain_not_shrunk:
  assumes "last_expand_tick (dominfo st d) = t" and "sched_tick st = t + 1"
  shows "memsize (dominfo st d) \<le> memsize (dominfo (sched_reserved_soft st) d)
       \<and> (\<forall>st'. sched_rebalance (sched_reserved_soft st) = Inr st'
                \<longrightarrow> memsize (dominfo st d) \<le> memsize (dominfo st' d))
       \<and> (\<forall>st'. sched_rebalance st = Inr st'
                \<longrightarrow> memsize (dominfo st d) \<le> memsize (dominfo st' d))
       \<and> \<not> is_shrink_soft_protected (st\<lparr>sched_tick := t + 2\<rparr>) (dominfo st d)"
proof -
  have p: "is_shrink_soft_protected st (dominfo st d)"
    using assms by (simp add: is_shrink_soft_protected_def shrink_protection_time_def)
  note s3 = sched_reserved_soft_ok[of st]
  have 1: "memsize (dominfo st d) \<le> memsize (dominfo (sched_reserved_soft st) d)"
    using s3 p by (simp add: floor_kept_def)
  have 2: "memsize (dominfo st d) \<le> memsize (dominfo st' d)"
    if "sched_rebalance (sched_reserved_soft st) = Inr st'" for st'
    using floor_kept_trans[OF conjunct1[OF s3] conjunct2[OF s3] sched_rebalance_floor_kept[OF that]] p
    by (simp add: floor_kept_def)
  have 3: "memsize (dominfo st d) \<le> memsize (dominfo st' d)"
    if "sched_rebalance st = Inr st'" for st'
    using sched_rebalance_floor_kept[OF that] p by (simp add: floor_kept_def)
  have "\<not> (2 :: 64 word) \<le> 1" by (simp add: word_le_nat_alt)
  then have 4: "\<not> is_shrink_soft_protected (st\<lparr>sched_tick := t + 2\<rparr>) (dominfo st d)"
    using assms(1) by (simp add: is_shrink_soft_protected_def shrink_protection_time_def)
  from 1 2 3 4 show ?thesis by blast
qed


theorem expanded_domain_not_shrunk_witness:
  "last_expand_tick (dominfo (sched_state_of 0 1000 0 [1, 2] (two_domains 1000 3145728)) 2) = 1000
   \<and> sched_tick (sched_state_of 0 1000 0 [1, 2] (two_domains 1000 3145728)) = 1000 + 1
   \<and> (\<exists>st'. sched_rebalance (sched_reserved_soft (sched_state_of 0 1000 0 [1, 2] (two_domains 1000 3145728)))
               = Inr st' \<and> memsize (dominfo st' 2) = 3145728)
   \<and> memsize (dominfo (sched_reserved_soft (sched_state_of 0 1000 0 [1, 2] (two_domains 999 3145728))) 2)
       = 3144728"
  using expanded_domain_not_shrunk [of "sched_state_of 0 1000 0 [1, 2] (two_domains 1000 3145728)" 2 1000]
    default_fractions(1)
  by (simp add: sched_eval soft_eval)

subsection \<open>The per-tick shrink floor\<close>

text \<open>Stages 3 and 4 never take the scheduled \<open>memsize\<close> of a domain below the smaller of
  its size at the start of the stage and its \<open>memsize_decr\<close>, and neither changes
  \<open>memsize_decr\<close>: a domain that has reached \<open>memsize_decr\<close> is not shrunk any further in
  the tick.\<close>

lemma shrink_stops_at_memsize_decr:
  "min (memsize (dominfo st x)) (memsize_decr (dominfo st x))
     \<le> memsize (dominfo (sched_reserved_soft st) x)
   \<and> memsize_decr (dominfo (sched_reserved_soft st) x) = memsize_decr (dominfo st x)
   \<and> (\<forall>st'. sched_rebalance st = Inr st'
          \<longrightarrow> min (memsize (dominfo st x)) (memsize_decr (dominfo st x)) \<le> memsize (dominfo st' x)
            \<and> memsize_decr (dominfo st' x) = memsize_decr (dominfo st x))"
proof -
  note s3 = sched_reserved_soft_ok[of st]
  have 1: "min (memsize (dominfo st x)) (memsize_decr (dominfo st x))
     \<le> memsize (dominfo (sched_reserved_soft st) x)
   \<and> memsize_decr (dominfo (sched_reserved_soft st) x) = memsize_decr (dominfo st x)"
    using s3 by (simp add: floor_kept_def)
  have 2: "min (memsize (dominfo st x)) (memsize_decr (dominfo st x)) \<le> memsize (dominfo st' x)
            \<and> memsize_decr (dominfo st' x) = memsize_decr (dominfo st x)"
    if "sched_rebalance st = Inr st'" for st'
    using sched_rebalance_floor_kept[OF that] by (simp add: floor_kept_def)
  from 1 2 show ?thesis by blast
qed

text \<open>The resist force is another matter. An iteration of \<^verbatim>\<open>rebalance_domains\<close> that leaves
  its victim at or below \<open>memsize_decr\<close> drops the victim from the shrink vector and leaves
  its \<open>resist_force\<close> as it was: \<^verbatim>\<open>eval_resist_force\<close> is called only for a victim that is
  still above \<open>memsize_decr\<close>.\<close>

lemma spent_victim_keeps_resist_force:
  assumes "rebalance_victim d need rctx (v # vs) st = Continue (need', vs', st')"
    and "memsize (dominfo st' v) \<le> memsize_decr (dominfo st' v)"
  shows "resist_force (dominfo st' v) = resist_force (dominfo st v) \<and> vs' = vs"
proof -
  let ?vi = "dominfo st v"
  from assms(1) have n: "need > 0" by (auto simp add: rebalance_victim_def split: if_splits)
  show ?thesis
  proof (cases "balside ?vi = RebalanceSide_EXPANDING \<or> memsize ?vi \<le> memsize_decr ?vi")
    case True
    with assms(1) n show ?thesis by (auto simp add: rebalance_victim_def)
  next
    case False
    define chunk where "chunk = min (memsize ?vi - shave_floor ?vi) need"
    define st3 where "st3 = transfer v d chunk st"
    have rf: "resist_force (dominfo st3 v) = resist_force ?vi"
      by (simp add: st3_def transfer_def upd_dom_def)
    have md: "memsize_decr (dominfo st3 v) = memsize_decr ?vi"
      by (simp add: st3_def transfer_def upd_dom_def)
    from assms(1) n False
    have c: "\<not> expand_force (dominfo st d) \<le> resist_force ?vi"
      by (auto simp add: rebalance_victim_def Let_def split: if_splits)
    show ?thesis
    proof (cases "memsize (dominfo st3 v) \<le> memsize_decr (dominfo st3 v)")
      case True
      with assms(1) n False c have "st' = st3" "vs' = vs"
        by (simp_all add: rebalance_victim_def Let_def chunk_def[symmetric] st3_def[symmetric])
      with rf show ?thesis by simp
    next
      case above: False
      show ?thesis
      proof (cases "size_resist_category ?vi (memsize ?vi)
                     \<noteq> size_resist_category (dominfo st3 v) (memsize (dominfo st3 v))")
        case True
        with assms(1) n False c above
        have "st' = upd_dom v (eval_resist_force rctx) st3"
          by (simp add: rebalance_victim_def Let_def chunk_def[symmetric] st3_def[symmetric])
        then have "memsize (dominfo st' v) = memsize (dominfo st3 v)"
            "memsize_decr (dominfo st' v) = memsize_decr (dominfo st3 v)"
          by simp_all
        with above assms(2) show ?thesis by simp
      next
        case same: False
        with assms(1) n False c above have "st' = st3"
          by (simp add: rebalance_victim_def Let_def chunk_def[symmetric] st3_def[symmetric])
        with above assms(2) show ?thesis by simp
      qed
    qed
  qed
qed

text \<open>
  C4. The comments of \<^verbatim>\<open>sched.cpp\<close> state that a domain contracted within the tick by its
  full \<^verbatim>\<open>DMEM_DECR\<close> has its pressure-resistance function go to 500. The code does not do
  that. Below, domain 2 (rate 0, size 3145728 KB above its quota, \<open>memsize_decr\<close> 3019900 KB)
  gives 125828 KB to domain 1 in stage 4 and ends the stage at its \<open>memsize_decr\<close>, marked as
  shrinking, with resist force 0; \<^verbatim>\<open>eval_resist_force\<close> run again on the final descriptor
  gives 0 as well, not 500.
\<close>

theorem spent_victim_resist_force_not_500:
  "\<exists>st'. sched_rebalance (sched_state_of 0 0 0 [1, 2] (two_domains 0 3145728)) = Inr st'
         \<and> memsize (dominfo (sched_state_of 0 0 0 [1, 2] (two_domains 0 3145728)) 2) = 3145728
         \<and> memsize (dominfo st' 2) = 3019900
         \<and> memsize_decr (dominfo st' 2) = 3019900
         \<and> memsize (dominfo st' 1) = 2621440 + 125828
         \<and> balside (dominfo st' 2) = RebalanceSide_SHRINKING
         \<and> resist_force (dominfo st' 2) = 0
         \<and> resist_force (eval_resist_force (eval_resist_force_context st' [1, 2]) (dominfo st' 2)) = 0"
  by (simp add: sched_eval)

subsection \<open>End of rebalancing\<close>

lemma expand_into_freemem_False:
  assumes "expand_into_freemem d need st = Inr (False, st')"
  shows "st' = st"
proof -
  from expand_into_freemem_cases[OF assms] obtain chunk where
    "False = (chunk \<noteq> 0)"
    "st' = upd_dom d (\<lambda>di. di\<lparr>memsize := memsize di + chunk\<rparr>) (st\<lparr>host_free := host_free st - chunk\<rparr>)"
    by blast
  then show ?thesis by (simp add: upd_dom_def)
qed

lemma rebalance_domains_outbid:
  assumes "\<forall>x \<in> set pre. balside (dominfo st x) = RebalanceSide_EXPANDING
                       \<or> memsize (dominfo st x) \<le> memsize_decr (dominfo st x)"
    and "balside (dominfo st v) \<noteq> RebalanceSide_EXPANDING"
    and "memsize_decr (dominfo st v) < memsize (dominfo st v)"
    and "expand_force (dominfo st d) \<le> resist_force (dominfo st v)"
  shows "snd (rebalance_domains d need rctx (pre @ v # post) st) = st"
  using assms(1)
proof (induction pre)
  case Nil
  show ?case using assms(2-4)
    by (subst rebalance_domains.simps) (simp add: rebalance_victim_def)
next
  case (Cons a pre)
  then have IH: "snd (rebalance_domains d need rctx (pre @ v # post) st) = st" by simp
  from Cons.prems have a: "balside (dominfo st a) = RebalanceSide_EXPANDING
                       \<or> memsize (dominfo st a) \<le> memsize_decr (dominfo st a)" by simp
  show ?case
  proof (cases "need > 0")
    case True
    with a IH show ?thesis
      by (subst rebalance_domains.simps) (auto simp add: rebalance_victim_def)
  next
    case False
    then show ?thesis
      by (subst rebalance_domains.simps) (simp add: rebalance_victim_def)
  qed
qed

text \<open>
  C5. In an iteration of the main loop of stage 4 let \<open>d\<close> be the head expansion candidate
  (not being shrunk), let nothing be allocated to it from free memory, let \<open>v\<close> be the first
  eligible domain of the shrink vector (those before it are \<open>d\<close> itself, domains expanded in
  this tick and domains at their \<open>memsize_decr\<close>), and let \<open>expand_force d \<le> resist_force v\<close>.
  Then the iteration leaves the loop and the stage ends: the remaining expansion candidates
  are not served, no \<open>memsize\<close> and no free memory changes, and the only change of the state
  is that \<open>d\<close> is marked as expanding.
\<close>

theorem rebalancing_ends_when_outbid:
  assumes "balside (dominfo st d) \<noteq> RebalanceSide_SHRINKING"
    and "expand_into_freemem d (expand_target (dominfo st d) - memsize (dominfo st d))
           (upd_dom d (\<lambda>x. x\<lparr>balside := RebalanceSide_EXPANDING\<rparr>) st) = Inr (False, st1)"
    and "\<forall>x \<in> set pre. x = d \<or> balside (dominfo st x) = RebalanceSide_EXPANDING
                       \<or> memsize (dominfo st x) \<le> memsize_decr (dominfo st x)"
    and "v \<noteq> d"
    and "balside (dominfo st v) \<noteq> RebalanceSide_EXPANDING"
    and "memsize_decr (dominfo st v) < memsize (dominfo st v)"
    and "expand_force (dominfo st d) \<le> resist_force (dominfo st v)"
  shows "rebalance_step ectx rctx (d # rest) (pre @ v # post) st = Break (Inr st1)
       \<and> rebalance_loop ectx rctx (d # rest) (pre @ v # post) st = Inr st1
       \<and> st1 = upd_dom d (\<lambda>x. x\<lparr>balside := RebalanceSide_EXPANDING\<rparr>) st
       \<and> (\<forall>x. memsize (dominfo st1 x) = memsize (dominfo st x))
       \<and> host_free st1 = host_free st"
proof -
  let ?s = "upd_dom d (\<lambda>x. x\<lparr>balside := RebalanceSide_EXPANDING\<rparr>) st"
  let ?need = "expand_target (dominfo st d) - memsize (dominfo st d)"
  have st1: "st1 = ?s" using expand_into_freemem_False[OF assms(2)] .
  have pre: "\<forall>x \<in> set pre. balside (dominfo ?s x) = RebalanceSide_EXPANDING
                       \<or> memsize (dominfo ?s x) \<le> memsize_decr (dominfo ?s x)"
    using assms(3) by (auto simp add: upd_dom_def)
  have v: "balside (dominfo ?s v) \<noteq> RebalanceSide_EXPANDING"
      "memsize_decr (dominfo ?s v) < memsize (dominfo ?s v)"
      "expand_force (dominfo ?s d) \<le> resist_force (dominfo ?s v)"
    using assms(4-7) by (simp_all add: upd_dom_def)
  have rd: "snd (rebalance_domains d ?need rctx (pre @ v # post) ?s) = ?s"
    by (rule rebalance_domains_outbid[OF pre v])
  have e: "expand_into_freemem d ?need ?s = Inr (False, ?s)"
    using assms(2) st1 by simp
  obtain vs' where vs': "rebalance_domains d ?need rctx (pre @ v # post) ?s = (vs', ?s)"
    using rd by (cases "rebalance_domains d ?need rctx (pre @ v # post) ?s") auto
  have t: "expand_target (dominfo ?s d) = expand_target (dominfo st d)"
    by (simp add: expand_target_def)
  have step: "rebalance_step ectx rctx (d # rest) (pre @ v # post) st = Break (Inr ?s)"
    using assms(1) by (simp add: rebalance_step_def Let_def t e vs')
  have loop: "rebalance_loop ectx rctx (d # rest) (pre @ v # post) st = Inr ?s"
    by (subst rebalance_loop.simps) (simp add: step)
  have m: "memsize (dominfo ?s x) = memsize (dominfo st x)" for x
    by (simp add: upd_dom_def)
  have h: "host_free ?s = host_free st" by (simp add: upd_dom_def)
  from step loop m h st1 show ?thesis by simp
qed

theorem rebalancing_ends_when_outbid_witness:
  "balside (dominfo (sched_state_of 0 0 0 [1, 2, 3] three_domains) 1) \<noteq> RebalanceSide_SHRINKING
   \<and> memsize (dominfo (sched_state_of 0 0 0 [1, 2, 3] three_domains) 2)
       \<le> memsize_decr (dominfo (sched_state_of 0 0 0 [1, 2, 3] three_domains) 2)
   \<and> balside (dominfo (sched_state_of 0 0 0 [1, 2, 3] three_domains) 3) \<noteq> RebalanceSide_EXPANDING
   \<and> memsize_decr (dominfo (sched_state_of 0 0 0 [1, 2, 3] three_domains) 3)
       < memsize (dominfo (sched_state_of 0 0 0 [1, 2, 3] three_domains) 3)
   \<and> expand_force (dominfo (sched_state_of 0 0 0 [1, 2, 3] three_domains) 1) = 101
   \<and> resist_force (dominfo (sched_state_of 0 0 0 [1, 2, 3] three_domains) 3) = 101
   \<and> rebalance_loop \<lparr>rmax = 300, base = force_base\<rparr> \<lparr>rmax = 300, base = force_base\<rparr>
        [1, 3] [2, 3] (sched_state_of 0 0 0 [1, 2, 3] three_domains)
       = Inr (upd_dom 1 (\<lambda>x. x\<lparr>balside := RebalanceSide_EXPANDING\<rparr>)
               (sched_state_of 0 0 0 [1, 2, 3] three_domains))"
  using rebalancing_ends_when_outbid [of "sched_state_of 0 0 0 [1, 2, 3] three_domains" 1
      "upd_dom 1 (\<lambda>x. x\<lparr>balside := RebalanceSide_EXPANDING\<rparr>)
               (sched_state_of 0 0 0 [1, 2, 3] three_domains)" "[2]" 3
      "\<lparr>rmax = 300, base = force_base\<rparr>" "\<lparr>rmax = 300, base = force_base\<rparr>" "[3]" "[]"]
  by (simp add: three_domains_def sched_state_of_def managed_domain_def new_domain_info_def
      default_config_def expand_into_freemem_def free_allocate_def expand_target_def upd_dom_def
      resist_force_free_soft_def Let_def)

subsection \<open>A report of rate 0\<close>

lemma slow_rate_230:
  "0 \<le> rnd (3000 / 13)" "\<lfloor>rnd (3000 / 13)\<rfloor> = 230"
proof -
  have "\<bar>rnd (3000 / 13) - 3000 / 13\<bar> \<le> \<bar>3000 / 13\<bar> / 2 ^ 53" by (rule rnd_error)
  also have "\<dots> \<le> 1 / 10" by simp
  finally have "\<bar>rnd (3000 / 13) - 3000 / 13\<bar> \<le> 1 / 10" .
  then have "230 \<le> rnd (3000 / 13)" "rnd (3000 / 13) < 231" by linarith+
  then show "0 \<le> rnd (3000 / 13)" "\<lfloor>rnd (3000 / 13)\<rfloor> = 230" by (simp_all add: floor_eq_iff)
qed

text \<open>
  After one sample of rate 1000 at tick 1000, a report with \<open>kbsec: 0\<close> and \<open>freepct: 100\<close> at
  tick 1001 gives \<open>fast_rate = 0\<close> but \<open>slow_rate = 230\<close>: the weighted average
  \<open>(0 \<cdot> 10 + 1000 \<cdot> 3) / 13\<close>, truncated.
\<close>

theorem zero_report_slow_rate_counterexample:
  "\<exists>di'. collect_domain libc_decimal (\<lambda>_. False) (sched_state_of 0 0 0 [1] (\<lambda>_. new_domain_info))
      (reporting_domain [\<lparr>rr_tick = 1000, rr_rate = 1000\<rparr>]
         [''A'', ''action: report'', ''kbsec: 0'', ''freepct: 100''])
     = Inr (Some di')
     \<and> freepct di' = 100 \<and> rate di' = 0 \<and> fast_rate di' = 0 \<and> slow_rate di' = 230"
  using default_fractions(2)
  by (simp add: report_eval slow_rate_230 reporting_domain_def sched_state_of_def managed_domain_def
      new_domain_info_def default_config_def)

lemma weight_loop_step:
  assumes "k < nel"
    and "gap = (if k \<noteq> 0 then sint (ucast (prev - rr_tick (hist ! k) - 1) :: 32 word) else 0)"
  shows "weight_loop ws hist nel k prev sr sw =
     (if gap < 0 then Inl (Fatal ''bug: weight_samples bad gap'')
      else if gap > 1 then Inr (sr, sw)
      else if k + nat gap \<ge> nel then Inr (sr, sw)
      else weight_loop ws hist nel (Suc (k + nat gap)) (rr_tick (hist ! k))
             (rnd (sr + rnd (rnd (real_of_int (rr_rate (hist ! k))) * ws ! (k + nat gap))))
             (rnd (sw + ws ! (k + nat gap))))"
  unfolding assms(2) using assms(1) by (subst weight_loop.simps) (simp add: Let_def)

lemma weight_loop_done:
  "\<not> k < nel \<Longrightarrow> weight_loop ws hist nel k prev sr sw = Inr (sr, sw)"
  by (subst weight_loop.simps) simp

text \<open>The loop returns when no gap between two samples is negative.\<close>

lemma weight_loop_returns:
  "sorted_wrt (\<lambda>a b. 0 \<le> tick_gap a b) hist \<Longrightarrow> nel \<le> length hist
   \<Longrightarrow> k = 0 \<or> (\<exists>i<k. prev = rr_tick (hist ! i))
   \<Longrightarrow> \<exists>p. weight_loop ws hist nel k prev sr sw = Inr p"
proof (induction ws hist nel k prev sr sw rule: weight_loop.induct)
  case (1 ws hist nel k prev sr sw)
  show ?case
  proof (cases "k < nel")
    case False
    then show ?thesis by (simp add: weight_loop_done)
  next
    case True
    define gap where "gap = (if k \<noteq> 0 then sint (ucast (prev - rr_tick (hist ! k) - 1) :: 32 word) else 0)"
    note step = weight_loop_step[OF True gap_def, of ws sr sw]
    have g0: "0 \<le> gap"
    proof (cases "k = 0")
      case True
      then show ?thesis by (simp add: gap_def)
    next
      case False
      with "1.prems"(3) obtain i where i: "i < k" "prev = rr_tick (hist ! i)" by blast
      from True "1.prems"(2) have "k < length hist" by simp
      from sorted_wrt_nth_less[OF "1.prems"(1) i(1) this]
      show ?thesis using False i(2) by (simp add: gap_def tick_gap_def)
    qed
    show ?thesis
    proof (cases "gap > 1 \<or> k + nat gap \<ge> nel")
      case True
      with g0 show ?thesis unfolding step by auto
    next
      case False
      have "\<exists>p. weight_loop ws hist nel (Suc (k + nat gap)) (rr_tick (hist ! k))
                (rnd (sr + rnd (rnd (real_of_int (rr_rate (hist ! k))) * ws ! (k + nat gap))))
                (rnd (sw + ws ! (k + nat gap))) = Inr p"
      proof (rule "1.IH"[OF \<open>k < nel\<close> refl gap_def _ _ refl _ "1.prems"(1,2)])
        show "\<not> gap < 0" using g0 by simp
        show "\<not> 1 < gap" using False by simp
        show "\<not> nel \<le> k + nat gap" using False by simp
        show "Suc (k + nat gap) = 0 \<or> (\<exists>i<Suc (k + nat gap). rr_tick (hist ! k) = rr_tick (hist ! i))"
          by (intro disjI2 exI[of _ k]) simp
      qed
      with False g0 show ?thesis unfolding step by auto
    qed
  qed
qed

text \<open>Samples that are not positive give a sum that is not positive, also after
  rounding.\<close>

lemma weight_loop_nonpos:
  "weight_loop ws hist nel k prev sr sw = Inr (sr', sw')
   \<Longrightarrow> nel \<le> length hist \<Longrightarrow> nel \<le> length ws
   \<Longrightarrow> \<forall>x \<in> set ws. 0 \<le> x \<Longrightarrow> \<forall>rr \<in> set hist. rr_rate rr \<le> 0
   \<Longrightarrow> sr \<le> 0 \<Longrightarrow> 0 \<le> sw \<Longrightarrow> sr' \<le> 0 \<and> 0 \<le> sw'"
proof (induction ws hist nel k prev sr sw rule: weight_loop.induct)
  case (1 ws hist nel k prev sr sw)
  show ?case
  proof (cases "k < nel")
    case False
    with "1.prems"(1) have "sr' = sr \<and> sw' = sw" by (simp add: weight_loop_done)
    with "1.prems" show ?thesis by simp
  next
    case True
    define gap where "gap = (if k \<noteq> 0 then sint (ucast (prev - rr_tick (hist ! k) - 1) :: 32 word) else 0)"
    note step = weight_loop_step[OF True gap_def, of ws sr sw]
    show ?thesis
    proof (cases "gap < 0 \<or> gap > 1 \<or> k + nat gap \<ge> nel")
      case True
      with "1.prems"(1) have "sr' = sr \<and> sw' = sw"
        unfolding step by (auto split: if_splits)
      with "1.prems" show ?thesis by simp
    next
      case False
      let ?k = "k + nat gap"
      let ?sr = "rnd (sr + rnd (rnd (real_of_int (rr_rate (hist ! k))) * ws ! ?k))"
      let ?sw = "rnd (sw + ws ! ?k)"
      from False "1.prems"(1)
      have w: "weight_loop ws hist nel (Suc ?k) (rr_tick (hist ! k)) ?sr ?sw = Inr (sr', sw')"
        unfolding step by (auto split: if_splits)
      from \<open>k < nel\<close> "1.prems"(2) have "hist ! k \<in> set hist" by simp
      with "1.prems"(5) have "real_of_int (rr_rate (hist ! k)) \<le> 0" by simp
      then have r: "rnd (real_of_int (rr_rate (hist ! k))) \<le> 0" by (rule rnd_nonpos)
      from False "1.prems"(3) have "ws ! ?k \<in> set ws" by simp
      with "1.prems"(4) have wk: "0 \<le> ws ! ?k" by blast
      from r wk have "rnd (real_of_int (rr_rate (hist ! k))) * ws ! ?k \<le> 0"
        by (simp add: mult_nonpos_nonneg)
      then have "rnd (rnd (real_of_int (rr_rate (hist ! k))) * ws ! ?k) \<le> 0" by (rule rnd_nonpos)
      with "1.prems"(6) have "sr + rnd (rnd (real_of_int (rr_rate (hist ! k))) * ws ! ?k) \<le> 0"
        by simp
      then have a1: "?sr \<le> 0" by (rule rnd_nonpos)
      from "1.prems"(7) wk have "0 \<le> sw + ws ! ?k" by simp
      then have a2: "0 \<le> ?sw" by (rule rnd_nonneg)
      show ?thesis
      proof (rule "1.IH"[OF \<open>k < nel\<close> refl gap_def _ _ refl _ w "1.prems"(2,3,4,5) a1 a2])
        show "\<not> gap < 0" using False by simp
        show "\<not> 1 < gap" using False by simp
        show "\<not> nel \<le> k + nat gap" using False by simp
      qed
    qed
  qed
qed

lemma parse_domain_report_history:
  assumes "parse_domain_report lc di = (True, Some d1)"
  shows "rate_history d1 = rate_history di \<and> rate_zero d1 = rate_zero di"
  using assms
  by (auto simp add: parse_domain_report_def Let_def
      split: option.splits list.splits if_splits prod.splits bool.splits)

lemma long_of_double_nonpos: "w \<le> 0 \<Longrightarrow> long_of_double w \<le> 0"
  by (simp add: long_of_double_def)

text \<open>
  C1 (amended). Let the pending report of a managed domain be accepted by
  \<^verbatim>\<open>parse_domain_report\<close> with a rate of 0 (reported so, or because \<open>freepct\<close> is above 100
  times the threshold of the global configuration), and let no gap that \<^verbatim>\<open>weight_samples\<close>
  computes between two samples of the five-sample window be negative (a negative gap ends
  the process). Then stage 1 returns with \<open>rate = 0\<close>, \<open>fast_rate = 0\<close> and \<open>slow_rate \<ge> 0\<close>,
  and \<open>slow_rate = 0\<close> if no sample already in \<open>rate_history\<close> has a positive rate. With a
  positive earlier sample \<open>slow_rate\<close> may be positive, as above.
\<close>

theorem zero_report_rates:
  assumes "report_raw di \<noteq> None"
    and "parse_domain_report lc di = (True, Some d1)"
    and "rate d1 = 0 \<or> freepct d1 > rnd (item_val (cfg_guest_free_threshold (config st)) * 100)"
    and "sorted_wrt (\<lambda>a b. 0 \<le> tick_gap a b)
           (take 5 (\<lparr>rr_tick = sched_tick st, rr_rate = 0\<rparr> # rate_history di))"
  shows "\<exists>di'. collect_domain lc trim st di = Inr (Some di')
           \<and> rate di' = 0 \<and> fast_rate di' = 0 \<and> 0 \<le> slow_rate di'
           \<and> ((\<forall>rr \<in> set (rate_history di). rr_rate rr \<le> 0) \<longrightarrow> slow_rate di' = 0)"
proof -
  let ?hist = "take 5 (\<lparr>rr_tick = sched_tick st, rr_rate = 0\<rparr> # rate_history di)"
  note ph = parse_domain_report_history[OF assms(2)]
  define d4 where "d4 = report_rate st d1"
  have r4: "rate d4 = 0" using assms(3) by (auto simp add: d4_def report_rate_def Let_def)
  have h4: "rate_history d4 = rate_history di" using ph by (simp add: d4_def report_rate_def Let_def)
  have len: "length slow_weights = 5" by (simp add: slow_weights_def)
  have nel: "min 5 (length ?hist) = length ?hist" by simp
  from weight_loop_returns[OF assms(4), of "length ?hist" 0 0 slow_weights 0 0]
  obtain sr sw where wl: "weight_loop slow_weights ?hist (length ?hist) 0 0 0 0 = Inr (sr, sw)"
    by auto
  define w where "w = rnd (sr / sw)"
  have ws: "weight_samples slow_weights 5 ?hist = Inr w"
    unfolding weight_samples_def nel wl w_def by simp
  define d5 where "d5 = d4\<lparr>rate_history := ?hist, fast_rate := 0,
                           slow_rate := max 0 (long_of_double w)\<rparr>"
  have ws': "weight_samples slow_weights 5
      (\<lparr>rr_tick = sched_tick st, rr_rate = 0\<rparr> # take 4 (rate_history di)) = Inr w"
    using ws by simp
  have cr: "calc_rates (sched_tick st) d4 = Inr d5"
    by (simp add: calc_rates_def len r4 h4 ws' d5_def Let_def)
  define d7 where "d7 = account_rates st d5"
  have cd: "collect_domain lc trim st di = Inr (Some (collect_valid st d7))"
    using assms(1) by (simp add: collect_domain_def assms(2) d4_def[symmetric] cr d7_def)
  have f: "rate (collect_valid st d7) = 0" "fast_rate (collect_valid st d7) = 0"
      "slow_rate (collect_valid st d7) = max 0 (long_of_double w)"
    using r4 by (simp_all add: collect_valid_def d7_def account_rates_def Let_def d5_def)
  have z: "slow_rate (collect_valid st d7) = 0" if np: "\<forall>rr \<in> set (rate_history di). rr_rate rr \<le> 0"
  proof -
    have "\<forall>rr \<in> set ?hist. rr_rate rr \<le> 0"
      using np by (auto dest!: in_set_takeD)
    from weight_loop_nonpos[OF wl _ _ _ this, of ] have "sr \<le> 0 \<and> 0 \<le> sw"
      by (simp add: slow_weights_def)
    then have "sr / sw \<le> 0" by (simp add: divide_nonpos_nonneg)
    then have "w \<le> 0" unfolding w_def by (rule rnd_nonpos)
    from long_of_double_nonpos[OF this] show ?thesis using f(3) by simp
  qed
  from cd f z show ?thesis by auto
qed

theorem zero_report_rates_witness:
  "report_raw (reporting_domain [\<lparr>rr_tick = 1000, rr_rate = 0\<rparr>, \<lparr>rr_tick = 998, rr_rate = 0\<rparr>]
       [''A'', ''action: report'', ''kbsec: 0'', ''freepct: 100'']) \<noteq> None
   \<and> parse_domain_report libc_decimal
       (reporting_domain [\<lparr>rr_tick = 1000, rr_rate = 0\<rparr>, \<lparr>rr_tick = 998, rr_rate = 0\<rparr>]
         [''A'', ''action: report'', ''kbsec: 0'', ''freepct: 100''])
     = (True, Some ((reporting_domain [\<lparr>rr_tick = 1000, rr_rate = 0\<rparr>, \<lparr>rr_tick = 998, rr_rate = 0\<rparr>]
         [''A'', ''action: report'', ''kbsec: 0'', ''freepct: 100''])
           \<lparr>rate := 0, freepct := 100, report_raw := None\<rparr>))
   \<and> (\<exists>di'. collect_domain libc_decimal (\<lambda>_. False) (sched_state_of 0 0 0 [1] (\<lambda>_. new_domain_info))
          (reporting_domain [\<lparr>rr_tick = 1000, rr_rate = 0\<rparr>, \<lparr>rr_tick = 998, rr_rate = 0\<rparr>]
            [''A'', ''action: report'', ''kbsec: 0'', ''freepct: 100'']) = Inr (Some di')
        \<and> rate di' = 0 \<and> fast_rate di' = 0 \<and> slow_rate di' = 0)"
  using zero_report_rates [of
      "reporting_domain [\<lparr>rr_tick = 1000, rr_rate = 0\<rparr>, \<lparr>rr_tick = 998, rr_rate = 0\<rparr>]
         [''A'', ''action: report'', ''kbsec: 0'', ''freepct: 100'']"
      libc_decimal
      "(reporting_domain [\<lparr>rr_tick = 1000, rr_rate = 0\<rparr>, \<lparr>rr_tick = 998, rr_rate = 0\<rparr>]
         [''A'', ''action: report'', ''kbsec: 0'', ''freepct: 100''])
           \<lparr>rate := 0, freepct := 100, report_raw := None\<rparr>"
      "sched_state_of 0 0 0 [1] (\<lambda>_. new_domain_info)" "\<lambda>_. False"]
    default_fractions(2)
  by (simp add: report_eval reporting_domain_def tick_gap_def sched_state_of_def managed_domain_def
      new_domain_info_def default_config_def)

subsection \<open>Settings resolution\<close>













subsection \<open>Guest reports\<close>

lemma foldl_report_line:
  "foldl report_line m ts k =
     (case filter (\<lambda>t. CHR '':'' \<in> set t \<and> line_key t = k) ts of
        [] \<Rightarrow> m k
      | fs \<Rightarrow> Some (line_value (last fs)))"
proof (induction ts rule: rev_induct)
  case Nil
  show ?case by simp
next
  case (snoc t ts)
  let ?P = "\<lambda>t. CHR '':'' \<in> set t \<and> line_key t = k"
  show ?case
  proof (cases "?P t")
    case True
    then have f: "filter ?P (ts @ [t]) = filter ?P ts @ [t]" by simp
    obtain y ys where c: "filter ?P ts @ [t] = y # ys" by (cases "filter ?P ts @ [t]") auto
    then have l: "last (y # ys) = t" by (metis last_snoc)
    have v: "foldl report_line m (ts @ [t]) k = Some (line_value t)"
      using True by (simp add: report_line_def line_key_def line_value_def)
    show ?thesis unfolding v f c by (simp only: list.case l)
  next
    case False
    then have f: "filter ?P (ts @ [t]) = filter ?P ts" by simp
    have v: "foldl report_line m (ts @ [t]) k = foldl report_line m ts k"
      using False by (auto simp add: report_line_def line_key_def)
    show ?thesis unfolding v f by (rule snoc.IH)
  qed
qed

lemma report_kv_last: "report_kv body k = last_value k body"
  by (simp add: report_kv_def last_value_def foldl_report_line)

text \<open>
  A report with the lines \<open>A\<close>, \<open>action: report\<close>, \<open>kbsec: 0\<close>, \<open>freepct: 100\<close> is rejected, and
  the domain unmanaged, when a later line \<open>action: stop\<close> follows; so is a report whose
  \<open>freepct\<close> value is \<open>+100\<close>, whatever the C library makes of it.
\<close>

theorem report_rejected_counterexample:
  "(\<forall>lc. parse_domain_report lc
      (reporting_domain [] [''A'', ''action: report'', ''kbsec: 0'', ''freepct: 100'', ''action: stop''])
     = (False, None))
   \<and> (\<forall>lc. parse_domain_report lc
      (reporting_domain [] [''A'', ''action: report'', ''kbsec: 0'', ''freepct: +100''])
     = (False, None))"
  by (simp add: parse_domain_report_def reporting_domain_def report_lines_def report_kv_def
      report_line_def isblank_def isdigit_def a2double_def Let_def
      split: option.splits prod.splits bool.splits)

text \<open>
  C10 (amended). For a report that begins with the line \<open>A\<close>, take for each key the value of
  the last line \<open>key: value\<close> with that key. \<^verbatim>\<open>parse_domain_report\<close> accepts the report, and
  stores the rate and the free percentage, exactly when the value of \<open>action\<close> is \<open>report\<close>,
  the value of \<open>kbsec\<close> is accepted by \<^verbatim>\<open>a2long\<close> and the value of \<open>freepct\<close> is accepted by
  \<^verbatim>\<open>a2double\<close> (which wants a digit first); otherwise the domain is unmanaged. No other key
  is consulted.
\<close>

theorem parse_domain_report_accepts:
  assumes "report_raw di = Some (CHR ''A'' # CHR 0x0A # body)"
  shows "parse_domain_report lc di =
     (case (last_value ''action'' body, last_value ''kbsec'' body, last_value ''freepct'' body) of
        (Some a, Some ks, Some fs) \<Rightarrow>
          if a = ''report'' \<and> fst (a2long lc ks) \<and> fst (a2double lc fs)
          then (True, Some (di\<lparr>rate := snd (a2long lc ks), freepct := snd (a2double lc fs),
                               report_raw := None\<rparr>))
          else (False, None)
      | _ \<Rightarrow> (False, None))"
  using assms
  by (auto simp add: parse_domain_report_def Let_def report_kv_last
      split: option.splits prod.splits bool.splits)

theorem parse_domain_report_accepts_witness:
  "report_raw (reporting_domain []
       [''A'', ''progname: x'', ''action: report'', ''seq: ?'', ''kbsec: 1250'', ''freepct: 40'', ''kb''])
     = Some (CHR ''A'' # CHR 0x0A #
         report_lines [''progname: x'', ''action: report'', ''seq: ?'', ''kbsec: 1250'', ''freepct: 40'', ''kb''])
   \<and> parse_domain_report libc_decimal (reporting_domain []
       [''A'', ''progname: x'', ''action: report'', ''seq: ?'', ''kbsec: 1250'', ''freepct: 40'', ''kb''])
     = (True, Some ((reporting_domain []
       [''A'', ''progname: x'', ''action: report'', ''seq: ?'', ''kbsec: 1250'', ''freepct: 40'', ''kb''])
         \<lparr>rate := 1250, freepct := 40, report_raw := None\<rparr>))"
  using parse_domain_report_accepts [of "reporting_domain []
       [''A'', ''progname: x'', ''action: report'', ''seq: ?'', ''kbsec: 1250'', ''freepct: 40'', ''kb'']"
     "report_lines [''progname: x'', ''action: report'', ''seq: ?'', ''kbsec: 1250'', ''freepct: 40'', ''kb'']"
     libc_decimal]
  by (simp add: reporting_domain_def report_lines_def last_value_def line_key_def line_value_def
      isblank_def isdigit_def a2long_def a2double_def libc_decimal_def strtol_decimal_def
      strtod_decimal_def digit_of_def rnd_eval Let_def)

subsection \<open>The guest free-memory threshold\<close>

text \<open>
  C2. \<^verbatim>\<open>resolve_settings\<close> resolves a \<open>guest_free_threshold\<close> for every domain, and the
  daemon shows it as the active setting of the domain, but stage 1 compares \<open>freepct\<close> with
  the threshold of the global configuration: the result of the rate override does not
  depend on the resolved threshold of the domain. Below, a domain with its own threshold of
  25% reports 30% free memory and 1000 KB/s while the global threshold is 50%; its rate
  stays 1000.
\<close>

theorem stage1_ignores_domain_threshold:
  "(\<forall>st d x. report_rate st (d\<lparr>guest_free_threshold := x\<rparr>)
               = (report_rate st d)\<lparr>guest_free_threshold := x\<rparr>)
   \<and> (\<exists>d1 di'. resolve_settings libc_decimal (config threshold_state) 4 threshold_domain
                  = (True, [], d1)
          \<and> guest_free_threshold d1 = 1 / 4
          \<and> collect_domain libc_decimal (\<lambda>_. False) threshold_state d1 = Inr (Some di')
          \<and> freepct di' = 30 \<and> rnd (guest_free_threshold di' * 100) = 25
          \<and> rate di' = 1000 \<and> fast_rate di' = 1000)"
proof -
  have 1: "report_rate st (d\<lparr>guest_free_threshold := x\<rparr>)
               = (report_rate st d)\<lparr>guest_free_threshold := x\<rparr>" for st d x
    by (simp add: report_rate_def Let_def)
  have 2: "\<exists>d1 di'. resolve_settings libc_decimal (config threshold_state) 4 threshold_domain
                  = (True, [], d1)
          \<and> guest_free_threshold d1 = 1 / 4
          \<and> collect_domain libc_decimal (\<lambda>_. False) threshold_state d1 = Inr (Some di')
          \<and> freepct di' = 30 \<and> rnd (guest_free_threshold di' * 100) = 25
          \<and> rate di' = 1000 \<and> fast_rate di' = 1000"
    by (simp add: threshold_state_def threshold_domain_def resolve_settings_def add_cond_def
        resolve_eval report_eval sched_state_of_def)
  from 1 2 show ?thesis by blast
qed

subsection \<open>The free-memory command while unpaused\<close>

text \<open>
  C8. When the scheduler is not paused (\<open>memsched_pause_level = 0\<close>), \<^verbatim>\<open>sched_freemem\<close>
  returns status \<open>P\<close> with both free-memory figures 0 and leaves the scheduler state as it
  was, whatever the request; the part of the routine that shrinks domains is not reached.
\<close>

theorem freemem_unpaused:
  assumes "memsched_pause_level st = 0"
  shows "sched_freemem paused u_reqamt above_slack draw_reserved_hard must timeout st
           = ((CHR ''P'', 0, 0), st)"
  using assms by (simp add: sched_freemem_def)

theorem freemem_unpaused_witness:
  "memsched_pause_level (sched_state_of 0 0 1000 [1, 2] (two_domains 0 3145728)) = 0
   \<and> sched_freemem (\<lambda>req above hard must timeout s. ((CHR ''A'', req, req), s\<lparr>host_free := int req\<rparr>))
        1048576 False False True 0 (sched_state_of 0 0 1000 [1, 2] (two_domains 0 3145728))
      = ((CHR ''P'', 0, 0), sched_state_of 0 0 1000 [1, 2] (two_domains 0 3145728))"
  using freemem_unpaused [of "sched_state_of 0 0 1000 [1, 2] (two_domains 0 3145728)"
      "\<lambda>req above hard must timeout s. ((CHR ''A'', req, req), s\<lparr>host_free := int req\<rparr>)"
      1048576 False False True 0]
  by (simp add: sched_state_of_def)

end
